theory Spec2Isabelle
  imports Main "HOL-Library.Word"
begin

section \<open>Shared helpers of the C++ standard library\<close>

text \<open>
  Everything that can throw in the sources is a value of \<open>error\<close>: \<open>smtAssert\<close> and
  \<open>solAssert\<close> with their message, the exceptions of \<open>std::stoul\<close>, the parser's
  \<open>ParsingException\<close>, and the places where the C++ reads through a null pointer or
  past the end of a vector without a check (undefined behaviour in C++, kept apart here
  so that no theorem depends on it silently).  An error ends the session: the state
  reached at the throw is not observed afterwards.
\<close>

datatype error =
    SMTAssert string
  | SolAssert
  | InvalidArgument
  | OutOfRange
  | NullPointer
  | OutOfBounds
  | ParsingException

text \<open>\<open>std::to_string\<close> on an unsigned value: its decimal digits.\<close>

definition digit_char :: "nat \<Rightarrow> char" where
  "digit_char d = ''0123456789'' ! d"

fun to_string :: "nat \<Rightarrow> string" where
  "to_string n = (if n < 10 then [digit_char n] else to_string (n div 10) @ [digit_char (n mod 10)])"

declare to_string.simps [simp del]

text \<open>\<open>boost::starts_with(input, test)\<close>.\<close>

definition starts_with :: "string \<Rightarrow> string \<Rightarrow> bool" where
  "starts_with input test = (take (length test) input = test)"

text \<open>\<open>boost::algorithm::join(parts, sep)\<close>.\<close>

fun join :: "string list \<Rightarrow> string \<Rightarrow> string" where
  "join [] sep = []"
| "join [x] sep = x"
| "join (x # y # ys) sep = x @ sep @ join (y # ys) sep"

section \<open>Sorts and expressions\<close>

text \<open>
  A sort object is identified by its address (the sort-name cache is keyed by
  \<open>&_sort\<close>), so every node carries the address of the object it stands for.  Two
  separately constructed sorts of the same structure differ in their addresses only.
  \<open>SortPointer\<close> is \<open>sort option\<close> where the code tests the pointer before reading
  through it, and \<open>sort\<close> where it reads without a test.
\<close>

type_synonym addr = nat

datatype Kind = Kind_Int | Kind_Bool | Kind_BitVector | Kind_Function | Kind_Array | Kind_Sort | Kind_Tuple

datatype sort =
    IntSort addr bool
  | BoolSort addr
  | BitVectorSort addr "32 word"
  | ArraySort addr "sort option" "sort option"
  | TupleSort addr string "string list" "sort list"
  | FunctionSort addr "sort list" sort
  | SortSort addr "sort option"

fun kind :: "sort \<Rightarrow> Kind" where
  "kind (IntSort a sg) = Kind_Int"
| "kind (BoolSort a) = Kind_Bool"
| "kind (BitVectorSort a n) = Kind_BitVector"
| "kind (ArraySort a d r) = Kind_Array"
| "kind (TupleSort a n ms cs) = Kind_Tuple"
| "kind (FunctionSort a d c) = Kind_Function"
| "kind (SortSort a i) = Kind_Sort"

fun address :: "sort \<Rightarrow> addr" where
  "address (IntSort a sg) = a"
| "address (BoolSort a) = a"
| "address (BitVectorSort a n) = a"
| "address (ArraySort a d r) = a"
| "address (TupleSort a n ms cs) = a"
| "address (FunctionSort a d c) = a"
| "address (SortSort a i) = a"

datatype Expression = Expression (name: string) (arguments: "Expression list") (sort: "sort option")

section \<open>The session state\<close>

record ReadCallback_Result =
  success :: bool
  responseOrErrorMessage :: string

type_synonym Callback = "string \<Rightarrow> string \<Rightarrow> ReadCallback_Result"

record SMTSolverChoice =
  cvc4 :: bool
  z3 :: bool

record SMTLib2Interface =
  m_accumulatedOutput :: "string list"
  m_variables :: "string \<rightharpoonup> sort"
  m_userSorts :: "(string \<times> string) list"
  m_sortNames :: "addr \<rightharpoonup> string"
  m_unhandledQueries :: "string list"
  m_smtCallback :: "Callback option"
  m_enabledSolvers :: SMTSolverChoice
  m_queryTimeout :: "32 word option"

text \<open>\<open>write\<close> (here \<open>write'\<close>): append the data and a newline to the top scope; asserts a scope exists.\<close>

definition write' :: "SMTLib2Interface \<Rightarrow> string \<Rightarrow> error + SMTLib2Interface" where
  "write' st data =
     (if m_accumulatedOutput st = [] then Inl (SMTAssert [])
      else Inr (st\<lparr>m_accumulatedOutput :=
                  butlast (m_accumulatedOutput st) @ [last (m_accumulatedOutput st) @ data @ ''\<newline>'']\<rparr>))"

definition push :: "SMTLib2Interface \<Rightarrow> SMTLib2Interface" where
  "push st = st\<lparr>m_accumulatedOutput := m_accumulatedOutput st @ [[]]\<rparr>"

definition pop :: "SMTLib2Interface \<Rightarrow> error + SMTLib2Interface" where
  "pop st =
     (if m_accumulatedOutput st = [] then Inl (SMTAssert [])
      else Inr (st\<lparr>m_accumulatedOutput := butlast (m_accumulatedOutput st)\<rparr>))"

definition reset :: "SMTLib2Interface \<Rightarrow> error + SMTLib2Interface" where
  "reset st =
     (let st0 = st\<lparr>m_accumulatedOutput := [[]], m_variables := Map.empty,
                    m_userSorts := [], m_sortNames := Map.empty\<rparr>
      in case write' st0 ''(set-option :produce-models true)'' of
           Inl e \<Rightarrow> Inl e
         | Inr st1 \<Rightarrow>
             (case (case m_queryTimeout st1 of
                      None \<Rightarrow> Inr st1
                    | Some t \<Rightarrow> write' st1 (''(set-option :timeout '' @ to_string (unat t) @ '')''))
              of Inl e \<Rightarrow> Inl e
               | Inr st2 \<Rightarrow> write' st2 ''(set-logic ALL)''))"

text \<open>The constructor: the fields as given, then \<open>reset()\<close>.\<close>

definition SMTLib2Interface_new ::
  "Callback option \<Rightarrow> SMTSolverChoice \<Rightarrow> 32 word option \<Rightarrow> error + SMTLib2Interface" where
  "SMTLib2Interface_new smtCallback enabledSolvers queryTimeout =
     reset \<lparr>m_accumulatedOutput = [], m_variables = Map.empty, m_userSorts = [],
            m_sortNames = Map.empty, m_unhandledQueries = [], m_smtCallback = smtCallback,
            m_enabledSolvers = enabledSolvers, m_queryTimeout = queryTimeout\<rparr>"

section \<open>Sorts to text\<close>

text \<open>
  \<open>toSmtLibSort(Sort const&)\<close>, \<open>sortToString\<close> and the loop of the latter over the
  members of a tuple sort.  The two renderings inside the text of an array sort are
  operands of one C++ \<open>+\<close> expression, which the language leaves unsequenced; they are
  taken in the order of the compiled code, the right operand first: the range is rendered
  before the domain.
  The class of a sort object is its constructor here, so the dynamic casts of the source
  to the class that goes with \<open>kind\<close> always succeed.
\<close>

fun toSmtLibSort :: "SMTLib2Interface \<Rightarrow> sort \<Rightarrow> error + (string \<times> SMTLib2Interface)"
and sortToString :: "SMTLib2Interface \<Rightarrow> sort \<Rightarrow> error + (string \<times> SMTLib2Interface)"
and tupleMembers :: "SMTLib2Interface \<Rightarrow> string \<Rightarrow> string list \<Rightarrow> sort list
                       \<Rightarrow> error + (string \<times> SMTLib2Interface)"
where
  "toSmtLibSort st s =
     (case m_sortNames st (address s) of
        Some cached \<Rightarrow> Inr (cached, st)
      | None \<Rightarrow>
          (case sortToString st s of
             Inl e \<Rightarrow> Inl e
           | Inr (smtLibName, st1) \<Rightarrow>
               Inr (smtLibName, st1\<lparr>m_sortNames := (m_sortNames st1)(address s \<mapsto> smtLibName)\<rparr>)))"
| "sortToString st (IntSort a sg) = Inr (''Int'', st)"
| "sortToString st (BoolSort a) = Inr (''Bool'', st)"
| "sortToString st (BitVectorSort a n) = Inr (''(_ BitVec '' @ to_string (unat n) @ '')'', st)"
| "sortToString st (ArraySort a (Some d) (Some r)) =
     (case toSmtLibSort st r of
        Inl e \<Rightarrow> Inl e
      | Inr (rt, st1) \<Rightarrow>
          (case toSmtLibSort st1 d of
             Inl e \<Rightarrow> Inl e
           | Inr (dt, st2) \<Rightarrow> Inr (''(Array '' @ dt @ '' '' @ rt @ '')'', st2)))"
| "sortToString st (ArraySort a d r) = Inl (SMTAssert [])"
| "sortToString st (TupleSort a nm members components) =
     (let tupleName = ''|'' @ nm @ ''|'' in
      if find (\<lambda>entry. fst entry = tupleName) (m_userSorts st) = None then
        (let decl = ''(declare-datatypes (('' @ tupleName @ '' 0)) ((('' @ tupleName in
         if length members \<noteq> length components then Inl (SMTAssert [])
         else
           (case tupleMembers st decl members components of
              Inl e \<Rightarrow> Inl e
            | Inr (decl1, st1) \<Rightarrow>
                (let decl2 = decl1 @ ''))))'' in
                 case write' (st1\<lparr>m_userSorts := m_userSorts st1 @ [(tupleName, decl2)]\<rparr>) decl2 of
                   Inl e \<Rightarrow> Inl e
                 | Inr st2 \<Rightarrow> Inr (tupleName, st2))))
      else Inr (tupleName, st))"
| "sortToString st (FunctionSort a d c) = Inl (SMTAssert ''Invalid SMT sort'')"
| "sortToString st (SortSort a i) = Inl (SMTAssert ''Invalid SMT sort'')"
| "tupleMembers st decl (m # ms) (c # cs) =
     (case toSmtLibSort st c of
        Inl e \<Rightarrow> Inl e
      | Inr (ct, st1) \<Rightarrow> tupleMembers st1 (decl @ '' (|'' @ m @ ''| '' @ ct @ '')'') ms cs)"
| "tupleMembers st decl ms cs = Inr (decl, st)"

declare toSmtLibSort.simps [simp del]

text \<open>\<open>toSmtLibSort(std::vector<SortPointer> const&)\<close>.\<close>

fun toSmtLibSorts :: "SMTLib2Interface \<Rightarrow> string \<Rightarrow> sort list \<Rightarrow> error + (string \<times> SMTLib2Interface)" where
  "toSmtLibSorts st ssort [] = Inr (ssort @ '')'', st)"
| "toSmtLibSorts st ssort (s # sorts) =
     (case toSmtLibSort st s of
        Inl e \<Rightarrow> Inl e
      | Inr (t, st1) \<Rightarrow> toSmtLibSorts st1 (ssort @ t @ '' '') sorts)"

section \<open>Declarations\<close>

text \<open>
  \<open>declareFunction\<close> renders domain and codomain and then records the name;
  \<open>declareVariable\<close> records the name and then renders the sort, as in the source.
\<close>

definition declareFunction :: "SMTLib2Interface \<Rightarrow> string \<Rightarrow> sort option \<Rightarrow> error + SMTLib2Interface" where
  "declareFunction st nm sortp =
     (case sortp of
        None \<Rightarrow> Inl (SMTAssert [])
      | Some (FunctionSort a domain codomain) \<Rightarrow>
          if m_variables st nm = None then
            (case toSmtLibSorts st ''('' domain of
               Inl e \<Rightarrow> Inl e
             | Inr (dom_text, st1) \<Rightarrow>
                 (case toSmtLibSort st1 codomain of
                    Inl e \<Rightarrow> Inl e
                  | Inr (cod_text, st2) \<Rightarrow>
                      write' (st2\<lparr>m_variables := (m_variables st2)(nm \<mapsto> FunctionSort a domain codomain)\<rparr>)
                        (''(declare-fun |'' @ nm @ ''| '' @ dom_text @ '' '' @ cod_text @ '')'')))
          else Inr st
      | Some other \<Rightarrow> Inl (SMTAssert []))"

definition declareVariable :: "SMTLib2Interface \<Rightarrow> string \<Rightarrow> sort option \<Rightarrow> error + SMTLib2Interface" where
  "declareVariable st nm sortp =
     (case sortp of
        None \<Rightarrow> Inl (SMTAssert [])
      | Some s \<Rightarrow>
          if kind s = Kind_Function then declareFunction st nm sortp
          else if m_variables st nm = None then
            (case toSmtLibSort (st\<lparr>m_variables := (m_variables st)(nm \<mapsto> s)\<rparr>) s of
               Inl e \<Rightarrow> Inl e
             | Inr (t, st1) \<Rightarrow> write' st1 (''(declare-fun |'' @ nm @ ''| () '' @ t @ '')''))
          else Inr st)"

section \<open>Expressions to text\<close>

text \<open>
  \<open>std::stoul\<close> in base 10, on a platform whose \<open>unsigned long\<close> has 64 bits: leading
  white space, an optional sign, then the longest run of digits; no digit is
  \<open>std::invalid_argument\<close>, a magnitude above \<open>ULONG_MAX\<close> is \<open>std::out_of_range\<close>,
  and a minus sign negates modulo \<open>2^64\<close>.
\<close>

definition isspace :: "char \<Rightarrow> bool" where
  "isspace c = (c \<in> set [CHR '' '', CHR 0x09, CHR ''\<newline>'', CHR 0x0B, CHR 0x0C, CHR 0x0D])"

definition isdigit :: "char \<Rightarrow> bool" where
  "isdigit c = (48 \<le> (of_char c :: nat) \<and> (of_char c :: nat) \<le> 57)"

definition digits_value :: "string \<Rightarrow> nat" where
  "digits_value ds = foldl (\<lambda>acc c. 10 * acc + (of_char c - 48)) 0 ds"

definition stoul :: "string \<Rightarrow> error + nat" where
  "stoul str =
     (let s1 = dropWhile isspace str;
          negative = (s1 \<noteq> [] \<and> hd s1 = CHR ''-'');
          s2 = (if s1 \<noteq> [] \<and> (hd s1 = CHR ''-'' \<or> hd s1 = CHR ''+'') then tl s1 else s1);
          ds = takeWhile isdigit s2
      in if ds = [] then Inl InvalidArgument
         else if digits_value ds > 2 ^ 64 - 1 then Inl OutOfRange
         else Inr (if negative then (2 ^ 64 - digits_value ds) mod 2 ^ 64 else digits_value ds))"

fun toSExpr :: "SMTLib2Interface \<Rightarrow> Expression \<Rightarrow> error + (string \<times> SMTLib2Interface)"
and toSExprArgs :: "SMTLib2Interface \<Rightarrow> string \<Rightarrow> Expression list \<Rightarrow> error + (string \<times> SMTLib2Interface)"
where
  "toSExpr st (Expression nm [] srt) = Inr (nm, st)"
| "toSExpr st (Expression nm (a0 # as) srt) =
     (if nm = ''int2bv'' then
        (case as of
           [] \<Rightarrow> Inl OutOfBounds
         | a1 # rest \<Rightarrow>
             (case stoul (name a1) of
                Inl e \<Rightarrow> Inl e
              | Inr sz \<Rightarrow>
                  (case toSExpr st a0 of
                     Inl e \<Rightarrow> Inl e
                   | Inr (arg, st1) \<Rightarrow>
                       (let int2bv = ''(_ int2bv '' @ to_string sz @ '')'' in
                        Inr (''('' @ ''ite '' @
                               ''(>= '' @ arg @ '' 0) '' @
                               ''('' @ int2bv @ '' '' @ arg @ '') '' @
                               ''(bvneg ('' @ int2bv @ '' (- '' @ arg @ '')))'' @ '')'', st1)))))
      else if nm = ''bv2int'' then
        (case srt of
           Some (IntSort ia isSigned) \<Rightarrow>
             (case toSExpr st a0 of
                Inl e \<Rightarrow> Inl e
              | Inr (arg, st1) \<Rightarrow>
                  (let nat_text = ''(bv2nat '' @ arg @ '')'' in
                   if \<not> isSigned then Inr (nat_text, st1)
                   else
                     (case sort a0 of
                        Some (BitVectorSort ba sz) \<Rightarrow>
                          (let pos = to_string (unat (sz - 1)) in
                           Inr (''('' @ ''ite '' @
                                  ''(= ((_ extract '' @ pos @ '' '' @ pos @ '')'' @ arg @ '') #b0) '' @
                                  nat_text @ '' '' @
                                  ''(- (bv2nat (bvneg '' @ arg @ '')))'' @ '')'', st1))
                      | other \<Rightarrow> Inl (SMTAssert []))))
         | other \<Rightarrow> Inl (SMTAssert []))
      else if nm = ''const_array'' then
        (case as of
           [a1] \<Rightarrow>
             (case sort a0 of
                Some (SortSort sa (Some (ArraySort aa d r))) \<Rightarrow>
                  (case toSmtLibSort st (ArraySort aa d r) of
                     Inl e \<Rightarrow> Inl e
                   | Inr (sort_text, st1) \<Rightarrow>
                       (case toSExpr st1 a1 of
                          Inl e \<Rightarrow> Inl e
                        | Inr (v, st2) \<Rightarrow>
                            Inr (''('' @ ''(as const '' @ sort_text @ '') '' @ v @ '')'', st2)))
              | other \<Rightarrow> Inl (SMTAssert []))
         | other \<Rightarrow> Inl (SMTAssert []))
      else if nm = ''tuple_get'' then
        (case as of
           [a1] \<Rightarrow>
             (case stoul (name a1) of
                Inl e \<Rightarrow> Inl e
              | Inr index \<Rightarrow>
                  (case sort a0 of
                     Some (TupleSort ta tn members components) \<Rightarrow>
                       if index < length members then
                         (case toSExpr st a0 of
                            Inl e \<Rightarrow> Inl e
                          | Inr (t, st1) \<Rightarrow>
                              Inr (''('' @ ''|'' @ members ! index @ ''| '' @ t @ '')'', st1))
                       else Inl (SMTAssert [])
                   | other \<Rightarrow> Inl NullPointer))
         | other \<Rightarrow> Inl (SMTAssert []))
      else if nm = ''tuple_constructor'' then
        (case srt of
           Some (TupleSort ta tn members components) \<Rightarrow>
             (case toSExprArgs st (''('' @ ''|'' @ tn @ ''|'') (a0 # as) of
                Inl e \<Rightarrow> Inl e
              | Inr (sexpr, st1) \<Rightarrow> Inr (sexpr @ '')'', st1))
         | other \<Rightarrow> Inl (SMTAssert []))
      else
        (case toSExprArgs st (''('' @ nm) (a0 # as) of
           Inl e \<Rightarrow> Inl e
         | Inr (sexpr, st1) \<Rightarrow> Inr (sexpr @ '')'', st1)))"
| "toSExprArgs st sexpr [] = Inr (sexpr, st)"
| "toSExprArgs st sexpr (arg # args) =
     (case toSExpr st arg of
        Inl e \<Rightarrow> Inl e
      | Inr (t, st1) \<Rightarrow> toSExprArgs st1 (sexpr @ '' '' @ t) args)"

definition addAssertion :: "SMTLib2Interface \<Rightarrow> Expression \<Rightarrow> error + SMTLib2Interface" where
  "addAssertion st e =
     (case toSExpr st e of
        Inl err \<Rightarrow> Inl err
      | Inr (t, st1) \<Rightarrow> write' st1 (''(assert '' @ t @ '')''))"

section \<open>The check command and the dispatcher\<close>

text \<open>The first loop of \<open>checkSatAndGetValuesCommand\<close>, from index \<open>i\<close> on.\<close>

fun evalExprDeclarations ::
  "SMTLib2Interface \<Rightarrow> nat \<Rightarrow> string \<Rightarrow> Expression list \<Rightarrow> error + (string \<times> SMTLib2Interface)" where
  "evalExprDeclarations st i command [] = Inr (command, st)"
| "evalExprDeclarations st i command (e # es) =
     (case sort e of
        None \<Rightarrow> Inl NullPointer
      | Some s \<Rightarrow>
          if kind s = Kind_Int \<or> kind s = Kind_Bool then
            (let command1 = command @ ''(declare-const |EVALEXPR_'' @ to_string i @ ''| '' @
                              (if kind s = Kind_Int then ''Int'' else ''Bool'') @ '')\<newline>''
             in case toSExpr st e of
                  Inl err \<Rightarrow> Inl err
                | Inr (t, st1) \<Rightarrow>
                    evalExprDeclarations st1 (Suc i)
                      (command1 @ ''(assert (= |EVALEXPR_'' @ to_string i @ ''| '' @ t @ ''))\<newline>'') es)
          else Inl (SMTAssert ''Invalid sort for expression to evaluate.''))"

text \<open>The second loop: the names listed in the get-value command.\<close>

definition evalExprNames :: "nat \<Rightarrow> string" where
  "evalExprNames k = concat (map (\<lambda>i. ''|EVALEXPR_'' @ to_string i @ ''| '') [0..<k])"

definition checkSatAndGetValuesCommand ::
  "SMTLib2Interface \<Rightarrow> Expression list \<Rightarrow> error + (string \<times> SMTLib2Interface)" where
  "checkSatAndGetValuesCommand st es =
     (if es = [] then Inr (''(check-sat)\<newline>'', st)
      else
        (case evalExprDeclarations st 0 [] es of
           Inl err \<Rightarrow> Inl err
         | Inr (command, st1) \<Rightarrow>
             Inr (command @ ''(check-sat)\<newline>'' @ ''(get-value ('' @ evalExprNames (length es) @ ''))\<newline>'', st1)))"

text \<open>
  \<open>dumpQuery\<close> and the query of \<open>check\<close>: the operands of the C++ \<open>+\<close> are
  unsequenced; they are taken in the order of the compiled code, the right operand first:
  the tail command is generated, and then the scopes are joined as it left them.
\<close>

definition dumpQuery :: "SMTLib2Interface \<Rightarrow> Expression list \<Rightarrow> error + (string \<times> SMTLib2Interface)" where
  "dumpQuery st es =
     (case checkSatAndGetValuesCommand st es of
        Inl err \<Rightarrow> Inl err
      | Inr (command, st1) \<Rightarrow> Inr (join (m_accumulatedOutput st1) ''\<newline>'' @ command, st1))"

datatype CheckResult = SATISFIABLE | UNSATISFIABLE | UNKNOWN | CONFLICTING | ERROR

definition resultFromSolverResponse :: "string \<Rightarrow> CheckResult" where
  "resultFromSolverResponse response =
     (if starts_with response ''sat'' then SATISFIABLE
      else if starts_with response ''unsat'' then UNSATISFIABLE
      else if starts_with response ''unknown'' then UNKNOWN
      else ERROR)"

definition solverAnswered :: "CheckResult \<Rightarrow> bool" where
  "solverAnswered result = (result = SATISFIABLE \<or> result = UNSATISFIABLE)"

text \<open>
  \<open>parseValues(_start, _end)\<close> on the text between the two iterators.  Each round
  either consumes the space it found or, finding none, reaches the end.
\<close>

function parseValuesFrom :: "string \<Rightarrow> string list" where
  "parseValuesFrom s =
     (if s = [] then []
      else
        (let valStart0 = dropWhile (\<lambda>c. c \<noteq> CHR '' '') s;
             valStart = (if valStart0 \<noteq> [] then tl valStart0 else valStart0);
             valEnd = dropWhile (\<lambda>c. c \<noteq> CHR '')'') valStart
         in takeWhile (\<lambda>c. c \<noteq> CHR '')'') valStart # parseValuesFrom (dropWhile (\<lambda>c. c \<noteq> CHR ''('') valEnd)))"
  by pat_completeness auto
termination
proof (relation "measure length")
  show "wf (measure length)" by simp
next
  fix s :: string and valStart0 valStart valEnd
  assume ne: "s \<noteq> []"
    and v0: "valStart0 = dropWhile (\<lambda>c. c \<noteq> CHR '' '') s"
    and v1: "valStart = (if valStart0 \<noteq> [] then tl valStart0 else valStart0)"
    and v2: "valEnd = dropWhile (\<lambda>c. c \<noteq> CHR '')'') valStart"
  have a: "length valStart0 \<le> length s" using v0 by (simp add: length_dropWhile_le)
  have b: "length valStart < length s"
  proof (cases "valStart0 = []")
    case True
    then show ?thesis using v1 ne by simp
  next
    case False
    then show ?thesis using v1 a by (cases valStart0) auto
  qed
  have c: "length valEnd \<le> length valStart" using v2 by (simp add: length_dropWhile_le)
  have "length (dropWhile (\<lambda>c. c \<noteq> CHR ''('') valEnd) \<le> length valEnd"
    by (simp add: length_dropWhile_le)
  then show "(dropWhile (\<lambda>c. c \<noteq> CHR ''('') valEnd, s) \<in> measure length"
    using b c by simp
qed

declare parseValuesFrom.simps [simp del]

definition parseValues :: "string \<Rightarrow> string list" where
  "parseValues solverAnswer = parseValuesFrom (dropWhile (\<lambda>c. c \<noteq> CHR ''\<newline>'') solverAnswer)"

text \<open>
  The loop of \<open>check\<close> over the solver commands.  \<open>consulted\<close> records the labels the
  callback was invoked with, in order: the invocations are the loop's only effect
  outside its two variables.
\<close>

record LoopState =
  lastResult :: CheckResult
  finalValues :: "string list"
  consulted :: "string list"

fun checkLoop :: "Callback \<Rightarrow> string \<Rightarrow> string \<Rightarrow> string list \<Rightarrow> LoopState \<Rightarrow> LoopState" where
  "checkLoop cb kindString query [] ls = ls"
| "checkLoop cb kindString query (s # rest) ls =
     (let callBackResult = cb (kindString @ '' '' @ s) query;
          ls1 = ls\<lparr>consulted := consulted ls @ [kindString @ '' '' @ s]\<rparr>
      in if \<not> success callBackResult then checkLoop cb kindString query rest ls1
         else
           (let response = responseOrErrorMessage callBackResult;
                result = resultFromSolverResponse response
            in if solverAnswered result then
                 (if \<not> solverAnswered (lastResult ls1) then
                    checkLoop cb kindString query rest
                      (ls1\<lparr>lastResult := result,
                           finalValues := (if result = SATISFIABLE then parseValues response
                                           else finalValues ls1)\<rparr>)
                  else if lastResult ls1 \<noteq> result then ls1\<lparr>lastResult := CONFLICTING\<rparr>
                  else checkLoop cb kindString query rest ls1)
               else if result = UNKNOWN \<and> lastResult ls1 = ERROR then
                 checkLoop cb kindString query rest (ls1\<lparr>lastResult := result\<rparr>)
               else checkLoop cb kindString query rest ls1))"

definition solverCommands :: "SMTSolverChoice \<Rightarrow> string list" where
  "solverCommands enabled =
     (if z3 enabled then [''z3 rlimit=1000000''] else []) @ (if cvc4 enabled then [''cvc4''] else [])"

text \<open>
  \<open>check\<close>.  \<open>kindString\<close> stands for \<open>ReadCallback::kindString(ReadCallback::Kind::SMTQuery)\<close>,
  whose text is declared outside these sources.  The result carries the verdict and the
  values, the labels of the callback invocations, and the session afterwards.
\<close>

definition check ::
  "SMTLib2Interface \<Rightarrow> string \<Rightarrow> Expression list
     \<Rightarrow> error + ((CheckResult \<times> string list) \<times> string list \<times> SMTLib2Interface)" where
  "check st kindString es =
     (case dumpQuery st es of
        Inl err \<Rightarrow> Inl err
      | Inr (query, st1) \<Rightarrow>
          (case m_smtCallback st1 of
             None \<Rightarrow> Inl (SMTAssert [])
           | Some cb \<Rightarrow>
               (let ls = checkLoop cb kindString query (solverCommands (m_enabledSolvers st1))
                           \<lparr>lastResult = ERROR, finalValues = [], consulted = []\<rparr>;
                    st2 = (if lastResult ls = ERROR
                           then st1\<lparr>m_unhandledQueries := m_unhandledQueries st1 @ [query]\<rparr>
                           else st1)
                in Inr ((lastResult ls, finalValues ls), consulted ls, st2))))"

section \<open>The s-expression parser\<close>

text \<open>\<open>SMTLib2Expression\<close>: a variant of a string and a vector of expressions.\<close>

datatype SMTLib2Expression = Atom string | Subexpressions "SMTLib2Expression list"

text \<open>
  Modelled from the spec: \<open>joinHumanReadable\<close> of libsolutil/StringUtils.h, which is
  not among the sources; the rendering is the "single-space-joined form", so the parts
  are joined by the separator.
\<close>

definition joinHumanReadable :: "string list \<Rightarrow> string \<Rightarrow> string" where
  "joinHumanReadable formatted separator = join formatted separator"

fun toString :: "SMTLib2Expression \<Rightarrow> string" where
  "toString (Atom sv) = sv"
| "toString (Subexpressions subExpr) = ''('' @ joinHumanReadable (map toString subExpr) '' '' @ '')''"

text \<open>
  The reader: the unread rest of \<open>m_input\<close>, whether the stream is still
  \<open>good()\<close>, and the current character \<open>m_token\<close>.  \<open>get'\<close> is
  \<open>static_cast<char>(m_input.get())\<close>: at the end of the input \<open>get()\<close> returns
  \<open>EOF\<close>, which is the character \<open>0xFF\<close> after the cast, and the stream is no
  longer good.
\<close>

record SMTLib2Parser =
  m_input :: string
  m_good :: bool
  m_token :: char

definition get' :: "SMTLib2Parser \<Rightarrow> SMTLib2Parser" where
  "get' p =
     (if \<not> m_good p \<or> m_input p = [] then p\<lparr>m_good := False, m_token := CHR 0xFF\<rparr>
      else p\<lparr>m_input := tl (m_input p), m_token := hd (m_input p)\<rparr>)"

text \<open>
  Modelled from the spec: \<open>isWhiteSpace\<close> of liblangutil/Common.h, which is not
  among the sources: blank, newline, tab and carriage return.
\<close>

definition isWhiteSpace :: "char \<Rightarrow> bool" where
  "isWhiteSpace c = (c = CHR '' '' \<or> c = CHR ''\<newline>'' \<or> c = CHR 0x09 \<or> c = CHR 0x0D)"

text \<open>
  Modelled from the spec: the reader's state on a fresh input.  The constructor is
  declared in libsmtutil/SMTLibParser.h, which is not among the sources; the reader
  works a character at a time and holds the current one in \<open>m_token\<close>, so it starts on
  the first character of its input.
\<close>

definition SMTLib2Parser_on :: "string \<Rightarrow> SMTLib2Parser" where
  "SMTLib2Parser_on input = get' \<lparr>m_input = input, m_good = True, m_token = CHR 0x00\<rparr>"

text \<open>
  The comment loop of \<open>advance\<close>.  It has no exit at the end of the input (the
  character \<open>0xFF\<close> is neither a newline nor zero), so it is a partial function: not
  returning is \<open>None\<close>.
\<close>

partial_function (option) skipComment :: "SMTLib2Parser \<Rightarrow> SMTLib2Parser option" where
  "skipComment p =
     (if m_token p \<noteq> CHR ''\<newline>'' \<and> m_token p \<noteq> CHR 0x00 then skipComment (get' p) else Some p)"

definition advance :: "SMTLib2Parser \<Rightarrow> (error + SMTLib2Parser) option" where
  "advance p =
     (if \<not> m_good p then Some (Inl ParsingException)
      else (let p1 = get' p in
            if m_token p1 = CHR '';'' then map_option Inr (skipComment p1) else Some (Inr p1)))"

partial_function (option) skipWhitespace :: "SMTLib2Parser \<Rightarrow> (error + SMTLib2Parser) option" where
  "skipWhitespace p =
     (if isWhiteSpace (m_token p) then
        Option.bind (advance p) (\<lambda>r. case r of Inl e \<Rightarrow> Some (Inl e) | Inr p1 \<Rightarrow> skipWhitespace p1)
      else Some (Inr p))"

text \<open>The loop of \<open>parseToken\<close> with its two variables \<open>isPipe\<close> and \<open>result\<close>.\<close>

partial_function (option) parseTokenLoop ::
  "bool \<Rightarrow> string \<Rightarrow> SMTLib2Parser \<Rightarrow> (error + (string \<times> SMTLib2Parser)) option" where
  "parseTokenLoop isPipe result p =
     (if m_token p \<noteq> CHR 0x00 then
        (if isPipe \<and> m_token p = CHR ''|'' then
           Option.bind (advance p)
             (\<lambda>r. case r of Inl e \<Rightarrow> Some (Inl e) | Inr p1 \<Rightarrow> Some (Inr (result, p1)))
         else if \<not> isPipe \<and> (isWhiteSpace (m_token p) \<or> m_token p = CHR ''('' \<or> m_token p = CHR '')'') then
           Some (Inr (result, p))
         else
           Option.bind (advance p)
             (\<lambda>r. case r of
                 Inl e \<Rightarrow> Some (Inl e)
               | Inr p1 \<Rightarrow> parseTokenLoop isPipe (result @ [m_token p]) p1))
      else Some (Inr (result, p)))"

definition parseToken :: "SMTLib2Parser \<Rightarrow> (error + (string \<times> SMTLib2Parser)) option" where
  "parseToken p =
     Option.bind (skipWhitespace p)
       (\<lambda>r. case r of
           Inl e \<Rightarrow> Some (Inl e)
         | Inr p1 \<Rightarrow>
             (let isPipe = (m_token p1 = CHR ''|'') in
              Option.bind (if isPipe then advance p1 else Some (Inr p1))
                (\<lambda>r. case r of
                    Inl e \<Rightarrow> Some (Inl e)
                  | Inr p2 \<Rightarrow> parseTokenLoop isPipe [] p2)))"

text \<open>
  \<open>parseExpression\<close> and the loop inside it call each other, so they are one
  recursive function with two entries: \<open>parseExpressionRec None\<close> is the body of
  \<open>parseExpression\<close> (its result the one expression read), and
  \<open>parseExpressionRec (Some subExpressions)\<close> is the \<open>while\<close> loop with the vector
  collected so far.
\<close>

partial_function (option) parseExpressionRec ::
  "SMTLib2Expression list option \<Rightarrow> SMTLib2Parser
     \<Rightarrow> (error + (SMTLib2Expression list \<times> SMTLib2Parser)) option" where
  "parseExpressionRec loop p =
     (case loop of
        None \<Rightarrow>
          Option.bind (skipWhitespace p)
            (\<lambda>r. case r of
                Inl e \<Rightarrow> Some (Inl e)
              | Inr p1 \<Rightarrow>
                  if m_token p1 = CHR ''('' then
                    Option.bind (advance p1)
                      (\<lambda>r. case r of
                          Inl e \<Rightarrow> Some (Inl e)
                        | Inr p2 \<Rightarrow>
                            Option.bind (skipWhitespace p2)
                              (\<lambda>r. case r of
                                  Inl e \<Rightarrow> Some (Inl e)
                                | Inr p3 \<Rightarrow>
                                    Option.bind (parseExpressionRec (Some []) p3)
                                      (\<lambda>r. case r of
                                          Inl e \<Rightarrow> Some (Inl e)
                                        | Inr (subExpressions, p4) \<Rightarrow>
                                            if m_token p4 = CHR '')'' then
                                              Some (Inr ([Subexpressions subExpressions],
                                                         p4\<lparr>m_token := CHR '' ''\<rparr>))
                                            else Some (Inl SolAssert))))
                  else
                    Option.bind (parseToken p1)
                      (\<lambda>r. case r of
                          Inl e \<Rightarrow> Some (Inl e)
                        | Inr (t, p2) \<Rightarrow> Some (Inr ([Atom t], p2))))
      | Some subExpressions \<Rightarrow>
          if m_token p \<noteq> CHR 0x00 \<and> m_token p \<noteq> CHR '')'' then
            Option.bind (parseExpressionRec None p)
              (\<lambda>r. case r of
                  Inl e \<Rightarrow> Some (Inl e)
                | Inr (parsed, p1) \<Rightarrow>
                    Option.bind (skipWhitespace p1)
                      (\<lambda>r. case r of
                          Inl e \<Rightarrow> Some (Inl e)
                        | Inr p2 \<Rightarrow> parseExpressionRec (Some (subExpressions @ parsed)) p2))
          else Some (Inr (subExpressions, p)))"

declare skipComment.simps [code] skipWhitespace.simps [code] parseTokenLoop.simps [code]
  parseExpressionRec.simps [code]

definition parseExpression :: "SMTLib2Parser \<Rightarrow> (error + (SMTLib2Expression \<times> SMTLib2Parser)) option" where
  "parseExpression p =
     map_option (map_sum id (\<lambda>(parsed, p1). (hd parsed, p1))) (parseExpressionRec None p)"

section \<open>Notions used in the statements\<close>

text \<open>What a run of sort renderings adds to a session.\<close>

definition quoted :: "string \<Rightarrow> string" where
  "quoted nm = ''|'' @ nm @ ''|''"

definition append_top :: "string list \<Rightarrow> string \<Rightarrow> string list" where
  "append_top out txt = butlast out @ [last out @ txt]"

definition emitted :: "(string \<times> string) list \<Rightarrow> string" where
  "emitted new = concat (map (\<lambda>entry. snd entry @ ''\<newline>'') new)"

text \<open>
  \<open>extends st st' new\<close>: the registry grew by the entries \<open>new\<close>, the top scope grew by
  exactly their declarations, one per line, the cache kept its entries, and nothing
  else changed.
\<close>

definition extends :: "SMTLib2Interface \<Rightarrow> SMTLib2Interface \<Rightarrow> (string \<times> string) list \<Rightarrow> bool" where
  "extends st st' new \<longleftrightarrow>
     m_userSorts st' = m_userSorts st @ new \<and>
     m_accumulatedOutput st' =
       (if new = [] then m_accumulatedOutput st else append_top (m_accumulatedOutput st) (emitted new)) \<and>
     (new \<noteq> [] \<longrightarrow> m_accumulatedOutput st \<noteq> []) \<and>
     m_variables st' = m_variables st \<and>
     m_unhandledQueries st' = m_unhandledQueries st \<and>
     m_smtCallback st' = m_smtCallback st \<and>
     m_enabledSolvers st' = m_enabledSolvers st \<and>
     m_queryTimeout st' = m_queryTimeout st \<and>
     m_sortNames st \<subseteq>\<^sub>m m_sortNames st'"

text \<open>
  The names of the tuple sorts a rendering walks through, and the sorts in which no
  tuple sort lies inside a tuple sort of the same name.
\<close>

fun tupleNames :: "sort \<Rightarrow> string set" where
  "tupleNames (TupleSort a nm ms cs) = insert nm (\<Union>c \<in> set cs. tupleNames c)"
| "tupleNames (ArraySort a (Some d) (Some r)) = tupleNames d \<union> tupleNames r"
| "tupleNames s = {}"

fun wellNested :: "sort \<Rightarrow> bool" where
  "wellNested (TupleSort a nm ms cs) = (\<forall>c \<in> set cs. nm \<notin> tupleNames c \<and> wellNested c)"
| "wellNested (ArraySort a (Some d) (Some r)) = (wellNested d \<and> wellNested r)"
| "wellNested s = True"

text \<open>A registry entry whose text is a datatype declaration of its name.\<close>

definition isDatatypeDeclaration :: "string \<times> string \<Rightarrow> bool" where
  "isDatatypeDeclaration entry =
     starts_with (snd entry) (''(declare-datatypes (('' @ fst entry @ '' 0)) ((('' @ fst entry)"

definition rendered :: "SMTLib2Interface \<Rightarrow> SMTLib2Interface \<Rightarrow> string set \<Rightarrow> bool \<Rightarrow> bool" where
  "rendered st st' names wn \<longleftrightarrow>
     (\<exists>new. extends st st' new \<and> fst ` set new \<subseteq> quoted ` names \<and>
        (wn \<longrightarrow> distinct (map fst (m_userSorts st)) \<longrightarrow> distinct (map fst (m_userSorts st'))) \<and>
        (\<forall>entry \<in> set new. isDatatypeDeclaration entry))"

text \<open>
  The sorts that \<open>sortToString\<close> accepts at every level: no function sort and no sort of
  sorts, every array sort with its domain and range, every tuple sort with as many
  members as components.
\<close>

fun renderable :: "sort \<Rightarrow> bool" where
  "renderable (IntSort a sg) = True"
| "renderable (BoolSort a) = True"
| "renderable (BitVectorSort a n) = True"
| "renderable (ArraySort a (Some d) (Some r)) = (renderable d \<and> renderable r)"
| "renderable (ArraySort a d r) = False"
| "renderable (TupleSort a nm members components) =
     (length members = length components \<and> (\<forall>c \<in> set components. renderable c))"
| "renderable (FunctionSort a d c) = False"
| "renderable (SortSort a i) = False"

text \<open>The declare-fun line of a name: the command and its newline.\<close>

definition declareFunLine :: "string \<Rightarrow> string \<Rightarrow> string" where
  "declareFunLine nm signature = ''(declare-fun |'' @ nm @ ''| '' @ signature @ '')'' @ ''\<newline>''"

definition frame :: "SMTLib2Interface \<Rightarrow> SMTLib2Interface \<Rightarrow> bool" where
  "frame st st' \<longleftrightarrow>
     m_variables st' = m_variables st \<and>
     m_unhandledQueries st' = m_unhandledQueries st \<and>
     m_smtCallback st' = m_smtCallback st \<and>
     m_enabledSolvers st' = m_enabledSolvers st \<and>
     m_queryTimeout st' = m_queryTimeout st"

text \<open>
  A get-value reply body: each item is a pair \<open>(name value)\<close> followed by the text up to
  the next pair (or, after the last pair, the rest of the reply).
\<close>

fun replyPairsText :: "(string \<times> string \<times> string) list \<Rightarrow> string" where
  "replyPairsText [] = []"
| "replyPairsText ((nm, v, sep) # items) = ''('' @ nm @ '' '' @ v @ '')'' @ sep @ replyPairsText items"

text \<open>Example sessions and callbacks for the closed instances below.\<close>

definition tableCallback :: "(string \<times> string) list \<Rightarrow> Callback" where
  "tableCallback replies = (\<lambda>label query.
     case map_of replies label of
       Some response \<Rightarrow> \<lparr>success = True, responseOrErrorMessage = response\<rparr>
     | None \<Rightarrow> \<lparr>success = False, responseOrErrorMessage = ''solver not available''\<rparr>)"

definition sessionWith :: "Callback option \<Rightarrow> SMTLib2Interface" where
  "sessionWith cb =
     \<lparr>m_accumulatedOutput = [''(set-option :produce-models true)\<newline>(set-logic ALL)\<newline>''],
      m_variables = Map.empty, m_userSorts = [], m_sortNames = Map.empty,
      m_unhandledQueries = [], m_smtCallback = cb,
      m_enabledSolvers = \<lparr>cvc4 = True, z3 = True\<rparr>, m_queryTimeout = None\<rparr>"

text \<open>Sequences of \<open>push\<close> and \<open>pop\<close>, and those in which no pop outnumbers the pushes before it
  (\<open>d\<close> counts the pushes not yet popped).\<close>

datatype scope_op = Push | Pop

fun runScopeOps :: "SMTLib2Interface \<Rightarrow> scope_op list \<Rightarrow> error + SMTLib2Interface" where
  "runScopeOps st [] = Inr st"
| "runScopeOps st (Push # ops) = runScopeOps (push st) ops"
| "runScopeOps st (Pop # ops) = (case pop st of Inl e \<Rightarrow> Inl e | Inr st1 \<Rightarrow> runScopeOps st1 ops)"

fun neverBelow :: "nat \<Rightarrow> scope_op list \<Rightarrow> bool" where
  "neverBelow d [] = True"
| "neverBelow d (Push # ops) = neverBelow (Suc d) ops"
| "neverBelow d (Pop # ops) = (0 < d \<and> neverBelow (d - 1) ops)"

definition twoSat :: Callback where
  "twoSat = tableCallback [(''smt-query z3 rlimit=1000000'', ''sat\<newline>((EVALEXPR_0 5))\<newline>''),
                           (''smt-query cvc4'', ''sat\<newline>((EVALEXPR_0 7))\<newline>'')]"

definition satUnsat :: Callback where
  "satUnsat = tableCallback [(''smt-query z3 rlimit=1000000'', ''sat\<newline>((EVALEXPR_0 5))\<newline>''),
                             (''smt-query cvc4'', ''unsat\<newline>'')]"

definition exampleQuery :: string where
  "exampleQuery = ''(set-option :produce-models true)\<newline>(set-logic ALL)\<newline>(declare-const |EVALEXPR_0| Int)\<newline>(assert (= |EVALEXPR_0| x))\<newline>(check-sat)\<newline>(get-value (|EVALEXPR_0| ))\<newline>''"

definition onlyZ3Failing :: SMTLib2Interface where
  "onlyZ3Failing = (sessionWith (Some (tableCallback [])))\<lparr>m_enabledSolvers := \<lparr>cvc4 = False, z3 = True\<rparr>\<rparr>"

text \<open>
  The tail command in the words of the (amended) specification: the expressions are
  rendered one after the other, each gets its declaration and its assertion under the
  quoted name \<open>|EVALEXPR_i|\<close>, then come \<open>(check-sat)\<close> and one get-value command
  over the names in order.  \<open>claimedGetValue\<close> is the get-value command as the
  specification writes it, the names unquoted.
\<close>

fun toSExprs :: "SMTLib2Interface \<Rightarrow> Expression list \<Rightarrow> error + (string list \<times> SMTLib2Interface)" where
  "toSExprs st [] = Inr ([], st)"
| "toSExprs st (e # es) =
     (case toSExpr st e of
        Inl err \<Rightarrow> Inl err
      | Inr (t, st1) \<Rightarrow>
          (case toSExprs st1 es of
             Inl err \<Rightarrow> Inl err
           | Inr (ts, st2) \<Rightarrow> Inr (t # ts, st2)))"

definition evalSortWord :: "Expression \<Rightarrow> string" where
  "evalSortWord e = (case sort e of Some s \<Rightarrow> if kind s = Kind_Int then ''Int'' else ''Bool'' | None \<Rightarrow> ''Bool'')"

definition evalExprDeclaration :: "nat \<times> string \<times> string \<Rightarrow> string" where
  "evalExprDeclaration item =
     ''(declare-const |EVALEXPR_'' @ to_string (fst item) @ ''| '' @ fst (snd item) @ '')\<newline>'' @
     ''(assert (= |EVALEXPR_'' @ to_string (fst item) @ ''| '' @ snd (snd item) @ ''))\<newline>''"

definition tailCommandText :: "(string \<times> string) list \<Rightarrow> string" where
  "tailCommandText items =
     concat (map evalExprDeclaration (enumerate 0 items)) @
     ''(check-sat)\<newline>'' @
     ''(get-value ('' @ concat (map (\<lambda>i. ''|EVALEXPR_'' @ to_string i @ ''| '') [0..<length items]) @ ''))\<newline>''"

definition claimedGetValue :: "nat \<Rightarrow> string" where
  "claimedGetValue k = ''(get-value ('' @ concat (map (\<lambda>i. ''EVALEXPR_'' @ to_string i @ '' '') [0..<k]) @ ''))''"

fun containsText :: "string \<Rightarrow> string \<Rightarrow> bool" where
  "containsText [] t = (t = [])"
| "containsText (c # cs) t = (starts_with (c # cs) t \<or> containsText cs t)"

definition twoEvalExprs :: "Expression list" where
  "twoEvalExprs = [Expression ''x'' [] (Some (IntSort 0 True)),
      Expression ''not'' [Expression ''b'' [] (Some (BoolSort 1))] (Some (BoolSort 1))]"

text \<open>Repeated declarations of one name, and the example sorts and sessions of the instances.\<close>

fun declareAll :: "SMTLib2Interface \<Rightarrow> string \<Rightarrow> sort list \<Rightarrow> error + SMTLib2Interface" where
  "declareAll st nm [] = Inr st"
| "declareAll st nm (s # ss) =
     (case declareVariable st nm (Some s) of Inl e \<Rightarrow> Inl e | Inr st1 \<Rightarrow> declareAll st1 nm ss)"

definition declaredX :: SMTLib2Interface where
  "declaredX = (sessionWith None)
     \<lparr>m_accumulatedOutput :=
        [''(set-option :produce-models true)\<newline>(set-logic ALL)\<newline>(declare-fun |x| () Int)\<newline>''],
      m_variables := [''x'' \<mapsto> IntSort 0 True],
      m_sortNames := [0 \<mapsto> ''Int'']\<rparr>"

definition pairSort1 :: sort where
  "pairSort1 = TupleSort 1 ''pair'' [''first'', ''second''] [IntSort 10 True, BoolSort 11]"


definition afterPair :: SMTLib2Interface where
  "afterPair = (sessionWith None)
     \<lparr>m_accumulatedOutput :=
        [''(set-option :produce-models true)\<newline>(set-logic ALL)\<newline>(declare-datatypes ((|pair| 0)) (((|pair| (|first| Int) (|second| Bool)))))\<newline>''],
      m_userSorts := [(''|pair|'', ''(declare-datatypes ((|pair| 0)) (((|pair| (|first| Int) (|second| Bool)))))'')],
      m_sortNames := [10 \<mapsto> ''Int'', 11 \<mapsto> ''Bool'', 1 \<mapsto> ''|pair|'']\<rparr>"

definition funSort :: sort where
  "funSort = FunctionSort 2 [IntSort 0 True, BoolSort 1] (IntSort 0 True)"

definition declaredFun :: SMTLib2Interface where
  "declaredFun = (sessionWith None)
     \<lparr>m_accumulatedOutput :=
        [''(set-option :produce-models true)\<newline>(set-logic ALL)\<newline>(declare-fun |v| (Int Bool ) Int)\<newline>''],
      m_variables := [''v'' \<mapsto> funSort],
      m_sortNames := [0 \<mapsto> ''Int'', 1 \<mapsto> ''Bool'']\<rparr>"

definition declaredPair :: SMTLib2Interface where
  "declaredPair = (sessionWith None)
     \<lparr>m_accumulatedOutput :=
        [''(set-option :produce-models true)\<newline>(set-logic ALL)\<newline>(declare-datatypes ((|pair| 0)) (((|pair| (|first| Int) (|second| Bool)))))\<newline>(declare-fun |v| () |pair|)\<newline>''],
      m_variables := [''v'' \<mapsto> pairSort1],
      m_userSorts := [(''|pair|'', ''(declare-datatypes ((|pair| 0)) (((|pair| (|first| Int) (|second| Bool)))))'')],
      m_sortNames := [10 \<mapsto> ''Int'', 11 \<mapsto> ''Bool'', 1 \<mapsto> ''|pair|'']\<rparr>"



text \<open>
  The state in which \<open>parseExpression\<close> leaves the reader after a list, with \<open>unread\<close>
  still in the stream: the closing parenthesis has been replaced by a blank and nothing
  has been read ahead.
\<close>

definition SMTLib2Parser_after_list :: "string \<Rightarrow> SMTLib2Parser" where
  "SMTLib2Parser_after_list unread = \<lparr>m_input = unread, m_good = True, m_token = CHR '' ''\<rparr>"

section \<open>Properties\<close>

subsection \<open>Evaluation of the library functions\<close>

lemma SMTLib2Interface_new_sessionWith:
  "SMTLib2Interface_new cb \<lparr>cvc4 = True, z3 = True\<rparr> None = Inr (sessionWith cb)"
  by (simp add: SMTLib2Interface_new_def reset_def write'_def sessionWith_def)

lemma stoul_8: "stoul ''8'' = Inr 8"
  by (simp add: stoul_def isspace_def isdigit_def digits_value_def)

lemma to_string_8: "to_string 8 = ''8''"
  by (simp add: to_string.simps digit_char_def)

lemma to_string_0: "to_string 0 = ''0''"
  by (simp add: to_string.simps digit_char_def)

lemma to_string_1: "to_string 1 = ''1''" "to_string (Suc 0) = ''1''"
  by (simp_all add: to_string.simps digit_char_def)

lemma dropWhile_notin: "c \<notin> set xs \<Longrightarrow> dropWhile (\<lambda>x. x \<noteq> c) (xs @ c # ys) = c # ys"
  by (induction xs) auto

lemma takeWhile_notin: "c \<notin> set xs \<Longrightarrow> takeWhile (\<lambda>x. x \<noteq> c) (xs @ c # ys) = xs"
  by (induction xs) auto

subsection \<open>The scope stack\<close>

lemma runScopeOps_neverBelow:
  "neverBelow d ops \<Longrightarrow> d \<le> length (m_accumulatedOutput st) \<Longrightarrow>
   \<exists>st'. runScopeOps st ops = Inr st' \<and>
         length (m_accumulatedOutput st) - d \<le> length (m_accumulatedOutput st')"
proof (induction d ops arbitrary: st rule: neverBelow.induct)
  case (1 d)
  then show ?case by simp
next
  case (2 d ops)
  have "Suc d \<le> length (m_accumulatedOutput (push st))" using 2(3) by (simp add: push_def)
  from 2(1) [OF _ this] 2(2) obtain st' where "runScopeOps (push st) ops = Inr st'"
    "length (m_accumulatedOutput (push st)) - Suc d \<le> length (m_accumulatedOutput st')"
    by auto
  then show ?case by (auto simp: push_def)
next
  case (3 d ops)
  then have d: "0 < d" and nb: "neverBelow (d - 1) ops" by simp_all
  have ne: "m_accumulatedOutput st \<noteq> []" using d 3(3) by auto
  let ?st1 = "st\<lparr>m_accumulatedOutput := butlast (m_accumulatedOutput st)\<rparr>"
  have p: "pop st = Inr ?st1" using ne by (simp add: pop_def)
  have "d - 1 \<le> length (m_accumulatedOutput ?st1)" using 3(3) by simp
  from 3(1) [OF nb this] obtain st' where "runScopeOps ?st1 ops = Inr st'"
    "length (m_accumulatedOutput ?st1) - (d - 1) \<le> length (m_accumulatedOutput st')"
    by auto
  then show ?case using p d by auto
qed

text \<open>
  Claim C2, as amended.  \<open>pop\<close> is a contract violation exactly when the scope stack is
  empty; on a stack of depth one or more it succeeds and removes one scope, so at depth
  one it leaves no scope at all.  \<open>push\<close> adds one scope and \<open>pop\<close> after \<open>push\<close>
  restores the session.  Every sequence of pushes and pops in which no pop outnumbers
  the pushes before it succeeds and leaves at least the scopes it started with.
\<close>

theorem C2_pop_contract:
  "(isl (pop st) \<longleftrightarrow> m_accumulatedOutput st = []) \<and>
   (\<forall>st'. pop st = Inr st' \<longrightarrow> Suc (length (m_accumulatedOutput st')) = length (m_accumulatedOutput st)) \<and>
   length (m_accumulatedOutput (push st)) = Suc (length (m_accumulatedOutput st)) \<and>
   pop (push st) = Inr st \<and>
   (neverBelow 0 ops \<longrightarrow>
      (\<exists>st'. runScopeOps st ops = Inr st' \<and>
             length (m_accumulatedOutput st) \<le> length (m_accumulatedOutput st')))"
proof -
  have a: "isl (pop st) \<longleftrightarrow> m_accumulatedOutput st = []" by (simp add: pop_def)
  have b: "\<forall>st'. pop st = Inr st' \<longrightarrow> Suc (length (m_accumulatedOutput st')) = length (m_accumulatedOutput st)"
    by (auto simp: pop_def split: if_splits)
  have c: "length (m_accumulatedOutput (push st)) = Suc (length (m_accumulatedOutput st))"
    by (simp add: push_def)
  have d: "pop (push st) = Inr st" by (simp add: pop_def push_def)
  have e: "neverBelow 0 ops \<longrightarrow>
      (\<exists>st'. runScopeOps st ops = Inr st' \<and>
             length (m_accumulatedOutput st) \<le> length (m_accumulatedOutput st'))"
    using runScopeOps_neverBelow [of 0 ops st] by auto
  show ?thesis using a b c d e by blast
qed

theorem C2_pop_contract_witness:
  "neverBelow 0 [Push, Pop, Push, Push, Pop] \<and>
   runScopeOps (sessionWith None) [Push, Pop, Push, Push, Pop] =
     Inr ((sessionWith None)\<lparr>m_accumulatedOutput :=
            [''(set-option :produce-models true)\<newline>(set-logic ALL)\<newline>'', []]\<rparr>) \<and>
   length (m_accumulatedOutput (sessionWith None)) \<le> 2 \<and>
   pop (push (sessionWith None)) = Inr (sessionWith None)"
  using C2_pop_contract [of "sessionWith None" "[Push, Pop, Push, Push, Pop]"]
  by (simp add: push_def pop_def sessionWith_def)

text \<open>
  Claim C2 as stated fails: on the fresh session, of depth one, \<open>pop\<close> returns
  normally and the stack is empty afterwards.
\<close>

theorem C2_pop_at_depth_one_counterexample:
  "length (m_accumulatedOutput (sessionWith None)) = 1 \<and>
   pop (sessionWith None) = Inr ((sessionWith None)\<lparr>m_accumulatedOutput := []\<rparr>) \<and>
   runScopeOps (sessionWith None) [Pop] = Inr ((sessionWith None)\<lparr>m_accumulatedOutput := []\<rparr>)"
  by (simp add: pop_def sessionWith_def)

subsection \<open>What a rendering of sorts adds to the session\<close>

lemma quoted_inj [simp]: "quoted a = quoted b \<longleftrightarrow> a = b"
  by (simp add: quoted_def)

lemma append_top_append_top: "append_top (append_top out a) b = append_top out (a @ b)"
  by (simp add: append_top_def)

lemma emitted_append: "emitted (a @ b) = emitted a @ emitted b"
  by (simp add: emitted_def)

lemma append_top_ne [simp]: "append_top out a \<noteq> []"
  by (simp add: append_top_def)

lemma extends_refl: "extends st st []"
  by (simp add: extends_def)

lemma extends_trans:
  assumes "extends st st1 n1" and "extends st1 st2 n2"
  shows "extends st st2 (n1 @ n2)"
proof -
  have "m_sortNames st \<subseteq>\<^sub>m m_sortNames st2"
    using assms by (auto simp: extends_def intro: map_le_trans)
  moreover have "m_accumulatedOutput st2 =
       (if n1 @ n2 = [] then m_accumulatedOutput st else append_top (m_accumulatedOutput st) (emitted (n1 @ n2)))"
    using assms by (auto simp: extends_def append_top_append_top emitted_append) (simp add: emitted_def)+
  moreover have "n1 @ n2 \<noteq> [] \<longrightarrow> m_accumulatedOutput st \<noteq> []"
    using assms by (auto simp: extends_def)
  ultimately show ?thesis
    using assms by (simp add: extends_def)
qed

lemma extends_cache:
  assumes "extends st st1 new" and "m_sortNames st a = None"
  shows "extends st (st1\<lparr>m_sortNames := (m_sortNames st1)(a \<mapsto> t)\<rparr>) new"
proof -
  have "m_sortNames st \<subseteq>\<^sub>m (m_sortNames st1)(a \<mapsto> t)"
    using assms by (auto simp: extends_def map_le_def dom_def)
  then show ?thesis using assms(1) by (simp add: extends_def)
qed

lemma write'_extends:
  assumes "write' (st\<lparr>m_userSorts := m_userSorts st @ [(nm, d)]\<rparr>) d = Inr st1"
  shows "extends st st1 [(nm, d)]"
  using assms by (auto simp: write'_def extends_def append_top_def emitted_def split: if_splits)

lemma find_None_names: "find (\<lambda>entry. fst entry = n) xs = None \<longleftrightarrow> n \<notin> fst ` set xs"
  by (force simp: find_None_iff)

lemma rendered_refl: "rendered st st names wn"
  unfolding rendered_def using extends_refl [of st] by (intro exI [of _ "[]"]) simp

lemma rendered_seq:
  assumes "rendered st st1 N1 W1" and "rendered st1 st2 N2 W2"
    and "N1 \<union> N2 \<subseteq> N" and "W \<Longrightarrow> W1 \<and> W2"
  shows "rendered st st2 N W"
proof -
  from assms(1) obtain n1 where n1: "extends st st1 n1" "fst ` set n1 \<subseteq> quoted ` N1"
    "W1 \<longrightarrow> distinct (map fst (m_userSorts st)) \<longrightarrow> distinct (map fst (m_userSorts st1))"
    "\<forall>entry \<in> set n1. isDatatypeDeclaration entry"
    unfolding rendered_def by (elim exE conjE)
  from assms(2) obtain n2 where n2: "extends st1 st2 n2" "fst ` set n2 \<subseteq> quoted ` N2"
    "W2 \<longrightarrow> distinct (map fst (m_userSorts st1)) \<longrightarrow> distinct (map fst (m_userSorts st2))"
    "\<forall>entry \<in> set n2. isDatatypeDeclaration entry"
    unfolding rendered_def by (elim exE conjE)
  have p: "\<forall>entry \<in> set (n1 @ n2). isDatatypeDeclaration entry" using n1(4) n2(4) by auto
  have e: "extends st st2 (n1 @ n2)" using n1(1) n2(1) by (rule extends_trans)
  have a: "quoted ` N1 \<subseteq> quoted ` N" using assms(3) by (intro image_mono) simp
  have b: "quoted ` N2 \<subseteq> quoted ` N" using assms(3) by (intro image_mono) simp
  have s1: "fst ` set n1 \<subseteq> quoted ` N" using n1(2) a by (rule subset_trans)
  have s2: "fst ` set n2 \<subseteq> quoted ` N" using n2(2) b by (rule subset_trans)
  have s: "fst ` set (n1 @ n2) \<subseteq> quoted ` N" using s1 s2 by (simp add: image_Un)
  have d: "W \<longrightarrow> distinct (map fst (m_userSorts st)) \<longrightarrow> distinct (map fst (m_userSorts st2))"
    using assms(4) n1(3) n2(3) by blast
  show ?thesis unfolding rendered_def using e s d p by (intro exI [of _ "n1 @ n2"] conjI)
qed

lemma rendered_cache:
  assumes "rendered st st1 N W" and "m_sortNames st a = None"
  shows "rendered st (st1\<lparr>m_sortNames := (m_sortNames st1)(a \<mapsto> t)\<rparr>) N W"
proof -
  from assms(1) obtain n1 where n1: "extends st st1 n1" "fst ` set n1 \<subseteq> quoted ` N"
    "W \<longrightarrow> distinct (map fst (m_userSorts st)) \<longrightarrow> distinct (map fst (m_userSorts st1))"
    "\<forall>entry \<in> set n1. isDatatypeDeclaration entry"
    unfolding rendered_def by (elim exE conjE)
  have e: "extends st (st1\<lparr>m_sortNames := (m_sortNames st1)(a \<mapsto> t)\<rparr>) n1"
    using n1(1) assms(2) by (rule extends_cache)
  show ?thesis unfolding rendered_def using e n1(2,3,4) by (intro exI [of _ n1]) simp
qed

lemma rendered_tuple:
  assumes "rendered st st1 N W1"
    and w: "write' (st1\<lparr>m_userSorts := m_userSorts st1 @ [(quoted nm, d)]\<rparr>) d = Inr st2"
    and fresh: "quoted nm \<notin> fst ` set (m_userSorts st)"
    and "insert nm N \<subseteq> N'" and "W \<Longrightarrow> W1 \<and> nm \<notin> N"
    and decl: "isDatatypeDeclaration (quoted nm, d)"
  shows "rendered st st2 N' W"
proof -
  from assms(1) obtain n1 where n1: "extends st st1 n1" "fst ` set n1 \<subseteq> quoted ` N"
    "W1 \<longrightarrow> distinct (map fst (m_userSorts st)) \<longrightarrow> distinct (map fst (m_userSorts st1))"
    "\<forall>entry \<in> set n1. isDatatypeDeclaration entry"
    unfolding rendered_def by (elim exE conjE)
  have p: "\<forall>entry \<in> set (n1 @ [(quoted nm, d)]). isDatatypeDeclaration entry"
    using n1(4) decl by auto
  have e2: "extends st1 st2 [(quoted nm, d)]" using w by (rule write'_extends)
  have e: "extends st st2 (n1 @ [(quoted nm, d)])" using n1(1) e2 by (rule extends_trans)
  have "quoted ` insert nm N \<subseteq> quoted ` N'" using assms(4) by blast
  then have s: "fst ` set (n1 @ [(quoted nm, d)]) \<subseteq> quoted ` N'" using n1(2) by auto
  have d: "distinct (map fst (m_userSorts st2))" if W and "distinct (map fst (m_userSorts st))"
  proof -
    have W1 and nn: "nm \<notin> N" using assms(5) [OF \<open>W\<close>] by simp_all
    have d1: "distinct (map fst (m_userSorts st1))" using n1(3) \<open>W1\<close> that(2) by simp
    have u1: "m_userSorts st1 = m_userSorts st @ n1" using n1(1) by (simp add: extends_def)
    have u2: "m_userSorts st2 = m_userSorts st1 @ [(quoted nm, d)]" using e2 by (simp add: extends_def)
    have "quoted nm \<notin> quoted ` N" using nn by auto
    then have b: "quoted nm \<notin> fst ` set n1" using n1(2) by blast
    show ?thesis using d1 fresh b unfolding u2 u1 by auto
  qed
  show ?thesis unfolding rendered_def using e s d p by (intro exI [of _ "n1 @ [(quoted nm, d)]"]) blast
qed

lemma starts_with_append:
  assumes "starts_with d p"
  shows "starts_with (d @ x) p"
proof -
  from assms have t: "take (length p) d = p" by (simp only: starts_with_def)
  have "length (take (length p) d) = length p" using t by simp
  then have "length p \<le> length d" by simp
  then have "take (length p) (d @ x) = take (length p) d" by simp
  then show ?thesis using t by (simp only: starts_with_def)
qed

lemma tupleMembers_prefix:
  "tupleMembers st decl ms cs = Inr (d, st') \<Longrightarrow> starts_with d decl"
proof (induction ms arbitrary: st decl cs)
  case Nil
  then show ?case by (simp add: starts_with_def)
next
  case (Cons m ms)
  show ?case
  proof (cases cs)
    case Nil
    then show ?thesis using Cons.prems by (simp add: starts_with_def)
  next
    case (Cons c cs')
    from Cons.prems Cons obtain ct st1 where
      r: "tupleMembers st1 (decl @ '' (|'' @ m @ ''| '' @ ct @ '')'') ms cs' = Inr (d, st')"
      by (auto split: sum.splits)
    have "starts_with d (decl @ '' (|'' @ m @ ''| '' @ ct @ '')'')" using r by (rule Cons.IH)
    then have "take (length decl) (take (length (decl @ '' (|'' @ m @ ''| '' @ ct @ '')'')) d) = take (length decl) (decl @ '' (|'' @ m @ ''| '' @ ct @ '')'')"
      by (simp only: starts_with_def)
    then show ?thesis by (simp add: starts_with_def min_def)
  qed
qed

lemma sortToString_Tuple:
  "sortToString st (TupleSort a nm members components) =
     (if quoted nm \<in> fst ` set (m_userSorts st) then Inr (quoted nm, st)
      else if length members \<noteq> length components then Inl (SMTAssert [])
      else
        (case tupleMembers st (''(declare-datatypes (('' @ quoted nm @ '' 0)) ((('' @ quoted nm) members components of
           Inl e \<Rightarrow> Inl e
         | Inr (decl1, st1) \<Rightarrow>
             (case write' (st1\<lparr>m_userSorts := m_userSorts st1 @ [(quoted nm, decl1 @ ''))))'')]\<rparr>)
                     (decl1 @ ''))))'') of
                Inl e \<Rightarrow> Inl e
              | Inr st2 \<Rightarrow> Inr (quoted nm, st2))))"
  unfolding sortToString.simps Let_def quoted_def find_None_names
  by (cases "''|'' @ nm @ ''|'' \<in> fst ` set (m_userSorts st)") simp_all

lemma render_rendered:
  "(\<forall>t st'. toSmtLibSort st s = Inr (t, st') \<longrightarrow> rendered st st' (tupleNames s) (wellNested s))"
  "(\<forall>t st'. sortToString st s = Inr (t, st') \<longrightarrow> rendered st st' (tupleNames s) (wellNested s))"
  "(\<forall>t st'. tupleMembers st decl ms cs = Inr (t, st') \<longrightarrow>
      rendered st st' (\<Union>c \<in> set cs. tupleNames c) (\<forall>c \<in> set cs. wellNested c))"
proof (induction st s and st s and st decl ms cs rule: toSmtLibSort_sortToString_tupleMembers.induct)
  case (1 st s)
  show ?case
  proof (intro allI impI)
    fix t st' assume r: "toSmtLibSort st s = Inr (t, st')"
    show "rendered st st' (tupleNames s) (wellNested s)"
    proof (cases "m_sortNames st (address s)")
      case (Some cached)
      then have "st' = st" using r by (simp add: toSmtLibSort.simps)
      then show ?thesis by (simp add: rendered_refl)
    next
      case None
      then obtain st1 where s1: "sortToString st s = Inr (t, st1)"
        and st': "st' = st1\<lparr>m_sortNames := (m_sortNames st1)(address s \<mapsto> t)\<rparr>"
        using r by (auto simp: toSmtLibSort.simps split: sum.splits)
      have "rendered st st1 (tupleNames s) (wellNested s)" using 1 [OF None] s1 by simp
      then show ?thesis unfolding st' using None by (rule rendered_cache)
    qed
  qed
next
  case (2 st a sg)
  show ?case by (simp add: rendered_refl)
next
  case (3 st a)
  show ?case by (simp add: rendered_refl)
next
  case (4 st a n)
  show ?case by (simp add: rendered_refl)
next
  case (5 st a d r)
  show ?case
  proof (intro allI impI)
    fix t st' assume r: "sortToString st (ArraySort a (Some d) (Some r)) = Inr (t, st')"
    then obtain rt st1 dt where rr: "toSmtLibSort st r = Inr (rt, st1)"
      and d: "toSmtLibSort st1 d = Inr (dt, st')"
      by (auto split: sum.splits)
    have r1: "rendered st st1 (tupleNames r) (wellNested r)" using 5(1) rr by simp
    have r2: "rendered st1 st' (tupleNames d) (wellNested d)" using 5(2) [OF rr refl] d by simp
    show "rendered st st' (tupleNames (ArraySort a (Some d) (Some r))) (wellNested (ArraySort a (Some d) (Some r)))"
      using r1 r2 by (rule rendered_seq) simp_all
  qed
next
  case "6_1"
  show ?case by simp
next
  case "6_2"
  show ?case by simp
next
  case (7 st a nm members components)
  show ?case
  proof (intro allI impI)
    fix t st' assume r0: "sortToString st (TupleSort a nm members components) = Inr (t, st')"
    note r = r0 [unfolded sortToString_Tuple]
    show "rendered st st' (tupleNames (TupleSort a nm members components)) (wellNested (TupleSort a nm members components))"
    proof (cases "quoted nm \<in> fst ` set (m_userSorts st)")
      case True
      then have "st' = st" using r by simp
      then show ?thesis by (simp add: rendered_refl)
    next
      case False
      let ?decl = "''(declare-datatypes (('' @ quoted nm @ '' 0)) ((('' @ quoted nm"
      from r False have len: "length members = length components"
        by (simp split: if_splits)
      from r False len obtain decl1 st1 where tm: "tupleMembers st ?decl members components = Inr (decl1, st1)"
        and w: "write' (st1\<lparr>m_userSorts := m_userSorts st1 @ [(quoted nm, decl1 @ ''))))'')]\<rparr>) (decl1 @ ''))))'') = Inr st'"
        by (auto split: sum.splits)
      have f: "find (\<lambda>entry. fst entry = ''|'' @ nm @ ''|'') (m_userSorts st) = None"
        using False by (simp add: find_None_names quoted_def)
      have len': "\<not> length members \<noteq> length components" using len by simp
      have tm': "tupleMembers st (''(declare-datatypes (('' @ (''|'' @ nm @ ''|'') @ '' 0)) ((('' @ (''|'' @ nm @ ''|'')) members components = Inr (decl1, st1)"
        using tm by (simp add: quoted_def)
      have r1: "rendered st st1 (\<Union>c \<in> set components. tupleNames c) (\<forall>c \<in> set components. wellNested c)"
        using 7 [OF refl f refl len'] tm' by simp
      have "starts_with decl1 ?decl" using tm by (rule tupleMembers_prefix)
      then have "starts_with (decl1 @ ''))))'') ?decl" by (rule starts_with_append)
      then have p: "isDatatypeDeclaration (quoted nm, decl1 @ ''))))'')"
        by (simp only: isDatatypeDeclaration_def fst_conv snd_conv)
      show ?thesis
        using r1 w False by (rule rendered_tuple) (auto simp: p)
    qed
  qed
next
  case (8 st a d c)
  show ?case by simp
next
  case (9 st a i)
  show ?case by simp
next
  case (10 st decl m ms c cs)
  show ?case
  proof (intro allI impI)
    fix t st' assume r: "tupleMembers st decl (m # ms) (c # cs) = Inr (t, st')"
    then obtain ct st1 where c: "toSmtLibSort st c = Inr (ct, st1)"
      and rest: "tupleMembers st1 (decl @ '' (|'' @ m @ ''| '' @ ct @ '')'') ms cs = Inr (t, st')"
      by (auto split: sum.splits)
    have r1: "rendered st st1 (tupleNames c) (wellNested c)" using 10(1) c by simp
    have r2: "rendered st1 st' (\<Union>c \<in> set cs. tupleNames c) (\<forall>c \<in> set cs. wellNested c)"
      using 10(2) [OF c refl] rest by simp
    show "rendered st st' (\<Union>c \<in> set (c # cs). tupleNames c) (\<forall>c \<in> set (c # cs). wellNested c)"
      using r1 r2 by (rule rendered_seq) simp_all
  qed
next
  case "11_1"
  show ?case by (simp add: rendered_refl)
next
  case "11_2"
  show ?case by (simp add: rendered_refl)
qed

lemma extends_scope: "extends st st' new \<Longrightarrow> m_accumulatedOutput st \<noteq> [] \<Longrightarrow> m_accumulatedOutput st' \<noteq> []"
  by (simp add: extends_def append_top_def split: if_splits)

lemma toSmtLibSort_declares:
  "toSmtLibSort st s = Inr (t, st') \<Longrightarrow>
     \<exists>new. extends st st' new \<and> (\<forall>entry \<in> set new. isDatatypeDeclaration entry)"
  using render_rendered(1) [of st s] by (auto simp: rendered_def)

lemma toSmtLibSorts_declares:
  "toSmtLibSorts st acc sorts = Inr (t, st') \<Longrightarrow>
     \<exists>new. extends st st' new \<and> (\<forall>entry \<in> set new. isDatatypeDeclaration entry)"
proof (induction sorts arbitrary: st acc)
  case Nil
  have "extends st st []" by (rule extends_refl)
  then have "extends st st [] \<and> (\<forall>entry \<in> set []. isDatatypeDeclaration entry)" by simp
  then show ?case using Nil by auto
next
  case (Cons s sorts)
  from Cons.prems obtain t1 st1 where a: "toSmtLibSort st s = Inr (t1, st1)"
    and b: "toSmtLibSorts st1 (acc @ t1 @ '' '') sorts = Inr (t, st')"
    by (auto split: sum.splits)
  from toSmtLibSort_declares [OF a] obtain n1 where n1: "extends st st1 n1"
    and p1: "\<forall>entry \<in> set n1. isDatatypeDeclaration entry" by blast
  from Cons.IH [OF b] obtain n2 where n2: "extends st1 st' n2"
    and p2: "\<forall>entry \<in> set n2. isDatatypeDeclaration entry" by blast
  have "extends st st' (n1 @ n2)" using n1 n2 by (rule extends_trans)
  moreover have "\<forall>entry \<in> set (n1 @ n2). isDatatypeDeclaration entry" using p1 p2 by auto
  ultimately show ?case by blast
qed

lemma write'_after_rendering:
  assumes "extends st st1 new" and "m_accumulatedOutput st \<noteq> []"
  shows "write' (st1\<lparr>m_variables := v\<rparr>) line =
           Inr (st1\<lparr>m_variables := v,
                    m_accumulatedOutput := append_top (m_accumulatedOutput st) (emitted new @ line @ ''\<newline>'')\<rparr>)"
  using assms
  by (auto simp: extends_def write'_def append_top_def emitted_def split: if_splits)

lemma render_total:
  "renderable s \<longrightarrow> m_accumulatedOutput st \<noteq> [] \<longrightarrow> (\<exists>t st'. toSmtLibSort st s = Inr (t, st'))"
  "renderable s \<longrightarrow> m_accumulatedOutput st \<noteq> [] \<longrightarrow> (\<exists>t st'. sortToString st s = Inr (t, st'))"
  "(\<forall>c \<in> set cs. renderable c) \<longrightarrow> m_accumulatedOutput st \<noteq> [] \<longrightarrow>
     (\<exists>t st'. tupleMembers st decl ms cs = Inr (t, st') \<and> m_accumulatedOutput st' \<noteq> [])"
proof (induction st s and st s and st decl ms cs rule: toSmtLibSort_sortToString_tupleMembers.induct)
  case (1 st s)
  show ?case
  proof (cases "m_sortNames st (address s)")
    case None
    then show ?thesis using 1 by (auto simp: toSmtLibSort.simps)
  next
    case (Some c)
    then show ?thesis by (simp add: toSmtLibSort.simps)
  qed
next
  case (2 st a sg)
  show ?case by simp
next
  case (3 st a)
  show ?case by simp
next
  case (4 st a n)
  show ?case by simp
next
  case (5 st a d r)
  show ?case
  proof (intro impI)
    assume rn: "renderable (ArraySort a (Some d) (Some r))" and sc: "m_accumulatedOutput st \<noteq> []"
    from 5(1) rn sc obtain rt st1 where rr: "toSmtLibSort st r = Inr (rt, st1)" by auto
    from toSmtLibSort_declares [OF rr] obtain n1 where "extends st st1 n1" by blast
    then have sc1: "m_accumulatedOutput st1 \<noteq> []" using sc by (rule extends_scope)
    from 5(2) [OF rr refl] rn sc1 obtain dt st2 where "toSmtLibSort st1 d = Inr (dt, st2)" by auto
    then show "\<exists>t st'. sortToString st (ArraySort a (Some d) (Some r)) = Inr (t, st')"
      using rr by simp
  qed
next
  case "6_1"
  show ?case by simp
next
  case "6_2"
  show ?case by simp
next
  case (7 st a nm members components)
  show ?case
  proof (intro impI)
    assume rn: "renderable (TupleSort a nm members components)" and sc: "m_accumulatedOutput st \<noteq> []"
    show "\<exists>t st'. sortToString st (TupleSort a nm members components) = Inr (t, st')"
    proof (cases "quoted nm \<in> fst ` set (m_userSorts st)")
      case True
      then show ?thesis by (simp add: sortToString_Tuple del: sortToString.simps)
    next
      case False
      have f: "find (\<lambda>entry. fst entry = ''|'' @ nm @ ''|'') (m_userSorts st) = None"
        using False by (simp add: find_None_names quoted_def)
      have len': "\<not> length members \<noteq> length components" using rn by simp
      from 7 [OF refl f refl len'] rn sc obtain decl1 st1 where
        tm: "tupleMembers st (''(declare-datatypes (('' @ (''|'' @ nm @ ''|'') @ '' 0)) ((('' @ (''|'' @ nm @ ''|'')) members components = Inr (decl1, st1)"
        and sc1: "m_accumulatedOutput st1 \<noteq> []" by auto
      have tm': "tupleMembers st (''(declare-datatypes (('' @ quoted nm @ '' 0)) ((('' @ quoted nm) members components = Inr (decl1, st1)"
        using tm by (simp add: quoted_def)
      show ?thesis
        unfolding sortToString_Tuple using False rn tm' sc1 by (simp add: write'_def)
    qed
  qed
next
  case 8
  show ?case by simp
next
  case 9
  show ?case by simp
next
  case (10 st decl m ms c cs)
  show ?case
  proof (intro impI)
    assume rn: "\<forall>c \<in> set (c # cs). renderable c" and sc: "m_accumulatedOutput st \<noteq> []"
    from 10(1) rn sc obtain ct st1 where rr: "toSmtLibSort st c = Inr (ct, st1)" by auto
    from toSmtLibSort_declares [OF rr] obtain n1 where "extends st st1 n1" by blast
    then have sc1: "m_accumulatedOutput st1 \<noteq> []" using sc by (rule extends_scope)
    from 10(2) [OF rr refl] rn sc1 show "\<exists>t st'. tupleMembers st decl (m # ms) (c # cs) = Inr (t, st') \<and> m_accumulatedOutput st' \<noteq> []"
      using rr by simp
  qed
next
  case "11_1"
  show ?case by simp
next
  case "11_2"
  show ?case by simp
qed

lemma toSmtLibSorts_total:
  "(\<forall>d \<in> set sorts. renderable d) \<Longrightarrow> m_accumulatedOutput st \<noteq> [] \<Longrightarrow>
     \<exists>t st'. toSmtLibSorts st acc sorts = Inr (t, st') \<and> m_accumulatedOutput st' \<noteq> []"
proof (induction sorts arbitrary: st acc)
  case Nil
  then show ?case by simp
next
  case (Cons s sorts)
  from render_total(1) [of s st] Cons.prems obtain t1 st1 where a: "toSmtLibSort st s = Inr (t1, st1)"
    by auto
  from toSmtLibSort_declares [OF a] obtain n1 where "extends st st1 n1" by blast
  then have sc1: "m_accumulatedOutput st1 \<noteq> []" using Cons.prems(2) by (rule extends_scope)
  have "\<forall>d \<in> set sorts. renderable d" using Cons.prems(1) by simp
  from Cons.IH [OF this sc1, of "acc @ t1 @ '' ''"] show ?case using a by simp
qed




subsection \<open>What a rendering leaves unchanged\<close>

lemma frame_refl [simp]: "frame st st"
  by (simp add: frame_def)

lemma frame_trans: "frame st st1 \<Longrightarrow> frame st1 st2 \<Longrightarrow> frame st st2"
  by (simp add: frame_def)

lemma rendered_frame: "rendered st st' N W \<Longrightarrow> frame st st'"
  by (auto simp: rendered_def extends_def frame_def)

lemma toSmtLibSort_frame: "toSmtLibSort st s = Inr (t, st') \<Longrightarrow> frame st st'"
  using render_rendered(1) [of st s] rendered_frame by blast

lemma toSExpr_frame:
  "(\<forall>t st'. toSExpr st e = Inr (t, st') \<longrightarrow> frame st st')"
  "(\<forall>t st'. toSExprArgs st sexpr es = Inr (t, st') \<longrightarrow> frame st st')"
proof (induction st e and st sexpr es rule: toSExpr_toSExprArgs.induct)
  case (1 st nm srt)
  show ?case by simp
next
  case (2 st nm a0 as srt)
  show ?case
  proof (intro allI impI)
    fix t st' assume r: "toSExpr st (Expression nm (a0 # as) srt) = Inr (t, st')"
    show "frame st st'"
    proof (cases "nm = ''const_array''")
      case True
      from r True obtain a1 sa aa d rr sort_text st1 v where as: "as = [a1]"
        and srt: "sort a0 = Some (SortSort sa (Some (ArraySort aa d rr)))"
        and s1: "toSmtLibSort st (ArraySort aa d rr) = Inr (sort_text, st1)"
        and s2: "toSExpr st1 a1 = Inr (v, st')"
        by (auto split: list.splits sum.splits option.splits sort.splits prod.splits)
      have "frame st st1" using s1 by (rule toSmtLibSort_frame)
      moreover have "frame st1 st'" using 2(3) True as srt s1 s2 by auto
      ultimately show ?thesis by (rule frame_trans)
    next
      case False
      show ?thesis
        using r False 2(1,2,4,5,6)
        by (auto simp: Let_def split: if_splits list.splits sum.splits option.splits sort.splits prod.splits)
    qed
  qed
next
  case (3 st sexpr)
  show ?case by simp
next
  case (4 st sexpr arg args)
  show ?case
  proof (intro allI impI)
    fix t st' assume r: "toSExprArgs st sexpr (arg # args) = Inr (t, st')"
    then obtain t1 st1 where a: "toSExpr st arg = Inr (t1, st1)"
      and b: "toSExprArgs st1 (sexpr @ '' '' @ t1) args = Inr (t, st')"
      by (auto split: sum.splits)
    have "frame st st1" using 4(1) a by simp
    moreover have "frame st1 st'" using 4(2) [OF a refl] b by simp
    ultimately show "frame st st'" by (rule frame_trans)
  qed
qed

lemma evalExprDeclarations_frame:
  "evalExprDeclarations st i command es = Inr (c, st') \<Longrightarrow> frame st st'"
proof (induction es arbitrary: st i command)
  case Nil
  then show ?case by simp
next
  case (Cons e es)
  from Cons.prems obtain t st1 c1 where a: "toSExpr st e = Inr (t, st1)"
    and b: "evalExprDeclarations st1 (Suc i) c1 es = Inr (c, st')"
    by (auto simp: Let_def split: option.splits if_splits sum.splits)
  have "frame st st1" using toSExpr_frame(1) [of st e] a by simp
  moreover have "frame st1 st'" using b by (rule Cons.IH)
  ultimately show ?case by (rule frame_trans)
qed

lemma dumpQuery_frame: "dumpQuery st es = Inr (query, st1) \<Longrightarrow> frame st st1"
  by (auto simp: dumpQuery_def checkSatAndGetValuesCommand_def
           split: sum.splits if_splits dest: evalExprDeclarations_frame)

subsection \<open>Declarations are idempotent\<close>

lemma declareVariable_again:
  assumes "m_variables st nm \<noteq> None"
  shows "declareVariable st nm (Some s2) = Inr st"
    and "kind s2 = Kind_Function \<Longrightarrow> declareFunction st nm (Some s2) = Inr st"
  using assms
  by (cases s2; auto simp: declareVariable_def declareFunction_def)+

lemma declareAll_again:
  "m_variables st nm \<noteq> None \<Longrightarrow> declareAll st nm ss = Inr st"
  by (induction ss) (simp_all add: declareVariable_again(1))

lemma declareVariable_first:
  assumes "m_variables st nm = None" and "m_accumulatedOutput st \<noteq> []" and "kind s \<noteq> Kind_Function"
    and r: "toSmtLibSort (st\<lparr>m_variables := (m_variables st)(nm \<mapsto> s)\<rparr>) s = Inr (t, st')"
  shows "\<exists>new. extends (st\<lparr>m_variables := (m_variables st)(nm \<mapsto> s)\<rparr>) st' new \<and>
           (\<forall>entry \<in> set new. isDatatypeDeclaration entry) \<and>
           declareVariable st nm (Some s) =
             Inr (st'\<lparr>m_accumulatedOutput :=
                       append_top (m_accumulatedOutput st) (emitted new @ declareFunLine nm (''() '' @ t))\<rparr>)"
proof -
  let ?sv = "st\<lparr>m_variables := (m_variables st)(nm \<mapsto> s)\<rparr>"
  from toSmtLibSort_declares [OF r] obtain new where e: "extends ?sv st' new"
    and p: "\<forall>entry \<in> set new. isDatatypeDeclaration entry" by blast
  have sc: "m_accumulatedOutput ?sv \<noteq> []" using assms(2) by simp
  have "write' (st'\<lparr>m_variables := m_variables st'\<rparr>) (''(declare-fun |'' @ nm @ ''| () '' @ t @ '')'') =
          Inr (st'\<lparr>m_variables := m_variables st',
                   m_accumulatedOutput := append_top (m_accumulatedOutput ?sv)
                     (emitted new @ (''(declare-fun |'' @ nm @ ''| () '' @ t @ '')'') @ ''\<newline>'')\<rparr>)"
    using e sc by (rule write'_after_rendering)
  then have w: "write' st' (''(declare-fun |'' @ nm @ ''| () '' @ t @ '')'') =
          Inr (st'\<lparr>m_accumulatedOutput := append_top (m_accumulatedOutput st)
                     (emitted new @ declareFunLine nm (''() '' @ t))\<rparr>)"
    by (simp add: declareFunLine_def)
  have "declareVariable st nm (Some s) =
          Inr (st'\<lparr>m_accumulatedOutput := append_top (m_accumulatedOutput st)
                     (emitted new @ declareFunLine nm (''() '' @ t))\<rparr>)"
    using assms(1,3) r w by (simp add: declareVariable_def)
  then show ?thesis using e p by blast
qed

lemma declareFunction_first:
  assumes "m_variables st nm = None" and "m_accumulatedOutput st \<noteq> []"
    and d: "toSmtLibSorts st ''('' domain = Inr (dt, st1)"
    and c: "toSmtLibSort st1 codomain = Inr (ct, st2)"
  shows "\<exists>new. extends st st2 new \<and>
           (\<forall>entry \<in> set new. isDatatypeDeclaration entry) \<and>
           declareFunction st nm (Some (FunctionSort a domain codomain)) =
             Inr (st2\<lparr>m_variables := (m_variables st)(nm \<mapsto> FunctionSort a domain codomain),
                      m_accumulatedOutput :=
                        append_top (m_accumulatedOutput st) (emitted new @ declareFunLine nm (dt @ '' '' @ ct))\<rparr>)"
proof -
  from toSmtLibSorts_declares [OF d] obtain n1 where n1: "extends st st1 n1"
    and p1: "\<forall>entry \<in> set n1. isDatatypeDeclaration entry" by blast
  from toSmtLibSort_declares [OF c] obtain n2 where n2: "extends st1 st2 n2"
    and p2: "\<forall>entry \<in> set n2. isDatatypeDeclaration entry" by blast
  have e: "extends st st2 (n1 @ n2)" using n1 n2 by (rule extends_trans)
  have p: "\<forall>entry \<in> set (n1 @ n2). isDatatypeDeclaration entry" using p1 p2 by auto
  have v: "m_variables st2 = m_variables st" using e by (simp add: extends_def)
  have "write' (st2\<lparr>m_variables := (m_variables st)(nm \<mapsto> FunctionSort a domain codomain)\<rparr>)
            (''(declare-fun |'' @ nm @ ''| '' @ dt @ '' '' @ ct @ '')'') =
          Inr (st2\<lparr>m_variables := (m_variables st)(nm \<mapsto> FunctionSort a domain codomain),
                   m_accumulatedOutput := append_top (m_accumulatedOutput st)
                     (emitted (n1 @ n2) @ (''(declare-fun |'' @ nm @ ''| '' @ dt @ '' '' @ ct @ '')'') @ ''\<newline>'')\<rparr>)"
    using e assms(2) by (rule write'_after_rendering)
  then have "declareFunction st nm (Some (FunctionSort a domain codomain)) =
          Inr (st2\<lparr>m_variables := (m_variables st)(nm \<mapsto> FunctionSort a domain codomain),
                   m_accumulatedOutput := append_top (m_accumulatedOutput st)
                     (emitted (n1 @ n2) @ declareFunLine nm (dt @ '' '' @ ct))\<rparr>)"
    using assms(1) d c v by (simp add: declareFunction_def declareFunLine_def)
  then show ?thesis using e p by blast
qed

lemma renderable_kind: "renderable s \<Longrightarrow> kind s \<noteq> Kind_Function"
  by (cases s) auto

lemma declareVariable_succeeds:
  assumes "m_variables st nm = None" and "m_accumulatedOutput st \<noteq> []" and "renderable s"
  shows "\<exists>r. declareVariable st nm (Some s) = Inr r"
proof -
  from render_total(1) [of s "st\<lparr>m_variables := (m_variables st)(nm \<mapsto> s)\<rparr>"] assms(2,3)
  obtain t st' where "toSmtLibSort (st\<lparr>m_variables := (m_variables st)(nm \<mapsto> s)\<rparr>) s = Inr (t, st')" by auto
  from declareVariable_first [OF assms(1,2) renderable_kind [OF assms(3)] this] show ?thesis by blast
qed

lemma declareFunction_succeeds:
  assumes "m_variables st nm = None" and "m_accumulatedOutput st \<noteq> []"
    and "\<forall>d \<in> set domain. renderable d" and "renderable codomain"
  shows "\<exists>r. declareFunction st nm (Some (FunctionSort a domain codomain)) = Inr r"
proof -
  from toSmtLibSorts_total [OF assms(3,2), of "''(''"] obtain dt st1
    where d: "toSmtLibSorts st ''('' domain = Inr (dt, st1)" and sc1: "m_accumulatedOutput st1 \<noteq> []" by blast
  from render_total(1) [of codomain st1] assms(4) sc1 obtain ct st2
    where c: "toSmtLibSort st1 codomain = Inr (ct, st2)" by auto
  from declareFunction_first [OF assms(1,2) d c] show ?thesis by blast
qed

lemma declareVariable_function:
  "declareVariable st nm (Some (FunctionSort a domain codomain)) =
     declareFunction st nm (Some (FunctionSort a domain codomain))"
  by (simp add: declareVariable_def)

lemma declared_by_first:
  assumes "declareVariable st nm (Some s) = Inr r \<or> declareFunction st nm (Some s) = Inr r"
    and fresh: "m_variables st nm = None" and scope: "m_accumulatedOutput st \<noteq> []"
  shows "\<exists>signature new.
           (\<forall>entry \<in> set new. isDatatypeDeclaration entry) \<and>
           m_accumulatedOutput r = append_top (m_accumulatedOutput st) (emitted new @ declareFunLine nm signature) \<and>
           m_userSorts r = m_userSorts st @ new \<and>
           m_variables r = (m_variables st)(nm \<mapsto> s)"
proof (cases "kind s = Kind_Function")
  case True
  then obtain a domain codomain where s: "s = FunctionSort a domain codomain" by (cases s) auto
  have f: "declareFunction st nm (Some (FunctionSort a domain codomain)) = Inr r"
    using assms(1) s by (auto simp: declareVariable_def)
  then obtain dt st1 ct st2 where d: "toSmtLibSorts st ''('' domain = Inr (dt, st1)"
    and c: "toSmtLibSort st1 codomain = Inr (ct, st2)"
    using fresh by (auto simp: declareFunction_def split: sum.splits)
  from declareFunction_first [OF fresh scope d c, of a] f obtain new where
    e: "extends st st2 new" and p: "\<forall>entry \<in> set new. isDatatypeDeclaration entry"
    and r: "r = st2\<lparr>m_variables := (m_variables st)(nm \<mapsto> FunctionSort a domain codomain),
                    m_accumulatedOutput :=
                      append_top (m_accumulatedOutput st) (emitted new @ declareFunLine nm (dt @ '' '' @ ct))\<rparr>"
    by auto
  have "m_userSorts r = m_userSorts st @ new" using e r by (simp add: extends_def)
  then show ?thesis using p r s by (intro exI [of _ "dt @ '' '' @ ct"] exI [of _ new]) simp
next
  case False
  let ?sv = "st\<lparr>m_variables := (m_variables st)(nm \<mapsto> s)\<rparr>"
  have v: "declareVariable st nm (Some s) = Inr r"
    using assms(1) False by (cases s) (auto simp: declareFunction_def)
  then obtain t st' where rr: "toSmtLibSort ?sv s = Inr (t, st')"
    using fresh False by (auto simp: declareVariable_def split: sum.splits)
  from declareVariable_first [OF fresh scope False rr] v obtain new where
    e: "extends ?sv st' new" and p: "\<forall>entry \<in> set new. isDatatypeDeclaration entry"
    and r: "r = st'\<lparr>m_accumulatedOutput :=
                      append_top (m_accumulatedOutput st) (emitted new @ declareFunLine nm (''() '' @ t))\<rparr>"
    by auto
  have "m_userSorts r = m_userSorts st @ new" and "m_variables r = (m_variables st)(nm \<mapsto> s)"
    using e r by (simp_all add: extends_def)
  then show ?thesis using p r by (intro exI [of _ "''() '' @ t"] exI [of _ new]) simp
qed

text \<open>
  Claim C8.  In a session with at least one scope, take a name that is not declared yet.
  The first \<open>declareVariable\<close> for it succeeds on every sort that renders, and the first
  \<open>declareFunction\<close> on every function sort whose domain and codomain render.  The first
  call appends to the top scope the datatype declarations its sort needs and then exactly
  one declare-fun line for the name: \<open>(declare-fun |name| () sort)\<close> for a variable, with
  the text of its sort, and \<open>(declare-fun |name| (domain ) codomain)\<close> for a function, with
  the texts of its domain and codomain; it records the name with its sort in the
  declaration table and changes nothing else but the cache of sort texts.
  \<open>declareVariable\<close> on a function sort is \<open>declareFunction\<close>.  Every later call for that
  name, with the same or a different sort, by either operation, returns the session
  unchanged: neither the output nor the table (nor anything else) changes, however often
  it is repeated.
\<close>

theorem C8_declaration_idempotent:
  assumes fresh: "m_variables st nm = None" and scope: "m_accumulatedOutput st \<noteq> []"
  shows "(renderable s \<longrightarrow> (\<exists>r. declareVariable st nm (Some s) = Inr r)) \<and>
         ((\<forall>d \<in> set domain. renderable d) \<and> renderable codomain \<longrightarrow>
            (\<exists>r. declareFunction st nm (Some (FunctionSort a domain codomain)) = Inr r)) \<and>
         (kind s \<noteq> Kind_Function \<and>
          toSmtLibSort (st\<lparr>m_variables := (m_variables st)(nm \<mapsto> s)\<rparr>) s = Inr (t, st') \<longrightarrow>
            (\<exists>new. extends (st\<lparr>m_variables := (m_variables st)(nm \<mapsto> s)\<rparr>) st' new \<and>
               (\<forall>entry \<in> set new. isDatatypeDeclaration entry) \<and>
               declareVariable st nm (Some s) =
                 Inr (st'\<lparr>m_accumulatedOutput :=
                           append_top (m_accumulatedOutput st)
                             (emitted new @ declareFunLine nm (''() '' @ t))\<rparr>))) \<and>
         (toSmtLibSorts st ''('' domain = Inr (dt, st1) \<and> toSmtLibSort st1 codomain = Inr (ct, st2) \<longrightarrow>
            (\<exists>new. extends st st2 new \<and>
               (\<forall>entry \<in> set new. isDatatypeDeclaration entry) \<and>
               declareFunction st nm (Some (FunctionSort a domain codomain)) =
                 Inr (st2\<lparr>m_variables := (m_variables st)(nm \<mapsto> FunctionSort a domain codomain),
                          m_accumulatedOutput :=
                            append_top (m_accumulatedOutput st)
                              (emitted new @ declareFunLine nm (dt @ '' '' @ ct))\<rparr>) \<and>
               declareVariable st nm (Some (FunctionSort a domain codomain)) =
                 declareFunction st nm (Some (FunctionSort a domain codomain)))) \<and>
         (declareVariable st nm (Some s) = Inr r \<or> declareFunction st nm (Some s) = Inr r \<longrightarrow>
            (\<exists>signature new.
               (\<forall>entry \<in> set new. isDatatypeDeclaration entry) \<and>
               m_accumulatedOutput r =
                 append_top (m_accumulatedOutput st) (emitted new @ declareFunLine nm signature) \<and>
               m_userSorts r = m_userSorts st @ new \<and>
               m_variables r = (m_variables st)(nm \<mapsto> s)) \<and>
            (\<forall>s2. declareVariable r nm (Some s2) = Inr r) \<and>
            (\<forall>s2. kind s2 = Kind_Function \<longrightarrow> declareFunction r nm (Some s2) = Inr r) \<and>
            (\<forall>ss. declareAll r nm ss = Inr r))"
proof (intro conjI impI)
  assume "renderable s"
  with fresh scope show "\<exists>r. declareVariable st nm (Some s) = Inr r"
    by (rule declareVariable_succeeds)
next
  assume "(\<forall>d \<in> set domain. renderable d) \<and> renderable codomain"
  then show "\<exists>r. declareFunction st nm (Some (FunctionSort a domain codomain)) = Inr r"
    using declareFunction_succeeds [OF fresh scope] by blast
next
  assume "kind s \<noteq> Kind_Function \<and>
          toSmtLibSort (st\<lparr>m_variables := (m_variables st)(nm \<mapsto> s)\<rparr>) s = Inr (t, st')"
  then show "\<exists>new. extends (st\<lparr>m_variables := (m_variables st)(nm \<mapsto> s)\<rparr>) st' new \<and>
               (\<forall>entry \<in> set new. isDatatypeDeclaration entry) \<and>
               declareVariable st nm (Some s) =
                 Inr (st'\<lparr>m_accumulatedOutput :=
                           append_top (m_accumulatedOutput st)
                             (emitted new @ declareFunLine nm (''() '' @ t))\<rparr>)"
    using declareVariable_first [OF fresh scope] by blast
next
  assume "toSmtLibSorts st ''('' domain = Inr (dt, st1) \<and> toSmtLibSort st1 codomain = Inr (ct, st2)"
  then have d: "toSmtLibSorts st ''('' domain = Inr (dt, st1)"
    and c: "toSmtLibSort st1 codomain = Inr (ct, st2)" by simp_all
  from declareFunction_first [OF fresh scope d c, of a]
  show "\<exists>new. extends st st2 new \<and>
               (\<forall>entry \<in> set new. isDatatypeDeclaration entry) \<and>
               declareFunction st nm (Some (FunctionSort a domain codomain)) =
                 Inr (st2\<lparr>m_variables := (m_variables st)(nm \<mapsto> FunctionSort a domain codomain),
                          m_accumulatedOutput :=
                            append_top (m_accumulatedOutput st)
                              (emitted new @ declareFunLine nm (dt @ '' '' @ ct))\<rparr>) \<and>
               declareVariable st nm (Some (FunctionSort a domain codomain)) =
                 declareFunction st nm (Some (FunctionSort a domain codomain))"
    using declareVariable_function [of st nm a domain codomain] by blast
next
  assume first: "declareVariable st nm (Some s) = Inr r \<or> declareFunction st nm (Some s) = Inr r"
  from declared_by_first [OF first fresh scope]
  show "\<exists>signature new.
               (\<forall>entry \<in> set new. isDatatypeDeclaration entry) \<and>
               m_accumulatedOutput r =
                 append_top (m_accumulatedOutput st) (emitted new @ declareFunLine nm signature) \<and>
               m_userSorts r = m_userSorts st @ new \<and>
               m_variables r = (m_variables st)(nm \<mapsto> s)" .
  then have declared: "m_variables r nm \<noteq> None" by auto
  show "\<forall>s2. declareVariable r nm (Some s2) = Inr r"
    using declareVariable_again(1) [OF declared] by blast
  show "\<forall>s2. kind s2 = Kind_Function \<longrightarrow> declareFunction r nm (Some s2) = Inr r"
    using declareVariable_again(2) [OF declared] by blast
  show "\<forall>ss. declareAll r nm ss = Inr r"
    using declareAll_again [OF declared] by blast
qed

theorem C8_declaration_idempotent_witness:
  "m_variables (sessionWith None) ''v'' = None \<and> m_accumulatedOutput (sessionWith None) \<noteq> [] \<and>
   renderable pairSort1 \<and> kind pairSort1 \<noteq> Kind_Function \<and>
   renderable (IntSort 0 True) \<and> renderable (BoolSort 1) \<and>
   toSmtLibSort ((sessionWith None)\<lparr>m_variables := [''v'' \<mapsto> pairSort1]\<rparr>) pairSort1 =
     Inr (''|pair|'', afterPair\<lparr>m_variables := [''v'' \<mapsto> pairSort1]\<rparr>) \<and>
   declareVariable (sessionWith None) ''v'' (Some pairSort1) = Inr declaredPair \<and>
   toSmtLibSorts (sessionWith None) ''('' [IntSort 0 True, BoolSort 1] =
     Inr (''(Int Bool )'', (sessionWith None)\<lparr>m_sortNames := [0 \<mapsto> ''Int'', 1 \<mapsto> ''Bool'']\<rparr>) \<and>
   toSmtLibSort ((sessionWith None)\<lparr>m_sortNames := [0 \<mapsto> ''Int'', 1 \<mapsto> ''Bool'']\<rparr>) (IntSort 0 True) =
     Inr (''Int'', (sessionWith None)\<lparr>m_sortNames := [0 \<mapsto> ''Int'', 1 \<mapsto> ''Bool'']\<rparr>) \<and>
   declareFunction (sessionWith None) ''v'' (Some funSort) = Inr declaredFun \<and>
   declareVariable (sessionWith None) ''v'' (Some funSort) = Inr declaredFun \<and>
   declareVariable declaredPair ''v'' (Some pairSort1) = Inr declaredPair \<and>
   declareVariable declaredPair ''v'' (Some (BoolSort 5)) = Inr declaredPair \<and>
   declareFunction declaredPair ''v'' (Some funSort) = Inr declaredPair \<and>
   declareAll declaredPair ''v'' [BoolSort 5, IntSort 3 False] = Inr declaredPair"
proof -
  have fresh: "m_variables (sessionWith None) ''v'' = None"
    and scope: "m_accumulatedOutput (sessionWith None) \<noteq> []"
    by (simp_all add: sessionWith_def)
  have sorts: "renderable pairSort1" "kind pairSort1 \<noteq> Kind_Function"
    "renderable (IntSort 0 True)" "renderable (BoolSort 1)"
    by (simp_all add: pairSort1_def)
  have pair: "toSmtLibSort ((sessionWith None)\<lparr>m_variables := [''v'' \<mapsto> pairSort1]\<rparr>) pairSort1 =
     Inr (''|pair|'', afterPair\<lparr>m_variables := [''v'' \<mapsto> pairSort1]\<rparr>)"
    by (simp add: pairSort1_def afterPair_def sessionWith_def toSmtLibSort.simps write'_def Let_def)
  have dom: "toSmtLibSorts (sessionWith None) ''('' [IntSort 0 True, BoolSort 1] =
     Inr (''(Int Bool )'', (sessionWith None)\<lparr>m_sortNames := [0 \<mapsto> ''Int'', 1 \<mapsto> ''Bool'']\<rparr>)"
    by (simp add: sessionWith_def toSmtLibSort.simps)
  have cod: "toSmtLibSort ((sessionWith None)\<lparr>m_sortNames := [0 \<mapsto> ''Int'', 1 \<mapsto> ''Bool'']\<rparr>) (IntSort 0 True) =
     Inr (''Int'', (sessionWith None)\<lparr>m_sortNames := [0 \<mapsto> ''Int'', 1 \<mapsto> ''Bool'']\<rparr>)"
    by (simp add: sessionWith_def toSmtLibSort.simps)
  have var: "declareVariable (sessionWith None) ''v'' (Some pairSort1) = Inr declaredPair"
    by (simp add: declareVariable_def declaredPair_def pairSort1_def sessionWith_def
          toSmtLibSort.simps write'_def Let_def)
  have fn: "declareFunction (sessionWith None) ''v'' (Some funSort) = Inr declaredFun"
    by (simp add: declareFunction_def declaredFun_def funSort_def sessionWith_def
          toSmtLibSort.simps write'_def)
  note t = C8_declaration_idempotent [OF fresh scope, of pairSort1 "[IntSort 0 True, BoolSort 1]"
      "IntSort 0 True" 2 "''|pair|''" "afterPair\<lparr>m_variables := [''v'' \<mapsto> pairSort1]\<rparr>"
      "''(Int Bool )''" "(sessionWith None)\<lparr>m_sortNames := [0 \<mapsto> ''Int'', 1 \<mapsto> ''Bool'']\<rparr>"
      "''Int''" "(sessionWith None)\<lparr>m_sortNames := [0 \<mapsto> ''Int'', 1 \<mapsto> ''Bool'']\<rparr>" declaredPair]
  have later: "declareVariable declaredPair ''v'' (Some pairSort1) = Inr declaredPair \<and>
     declareVariable declaredPair ''v'' (Some (BoolSort 5)) = Inr declaredPair \<and>
     declareFunction declaredPair ''v'' (Some funSort) = Inr declaredPair \<and>
     declareAll declaredPair ''v'' [BoolSort 5, IntSort 3 False] = Inr declaredPair"
    using t var by (simp add: funSort_def)
  have both: "declareVariable (sessionWith None) ''v'' (Some funSort) = Inr declaredFun"
    using fn by (simp add: declareVariable_def funSort_def)
  show ?thesis using fresh scope sorts pair dom cod var fn both later
    by blast
qed

subsection \<open>Tuple declarations\<close>





subsection \<open>The int2bv rendering\<close>

text \<open>
  Claim C5.  For the application expression named \<open>int2bv\<close> whose value argument renders
  as \<open>5\<close> and whose width argument is the literal \<open>8\<close>, \<open>toSExpr\<close> returns exactly
  \<open>(ite (>= 5 0) ((_ int2bv 8) 5) (bvneg ((_ int2bv 8) (- 5))))\<close>, whatever the sort
  attached to the application, and leaves the session as the rendering of the value
  argument left it.
\<close>

theorem C5_int2bv_rendering:
  assumes "toSExpr st v = Inr (''5'', st')" and "name w = ''8''"
  shows "toSExpr st (Expression ''int2bv'' [v, w] srt)
         = Inr (''(ite (>= 5 0) ((_ int2bv 8) 5) (bvneg ((_ int2bv 8) (- 5))))'', st')"
  using assms by (simp add: stoul_8 to_string_8)

theorem C5_int2bv_rendering_witness:
  "toSExpr (sessionWith None) (Expression ''5'' [] None) = Inr (''5'', sessionWith None) \<and>
   name (Expression ''8'' [] None) = ''8'' \<and>
   toSExpr (sessionWith None)
     (Expression ''int2bv'' [Expression ''5'' [] None, Expression ''8'' [] None] None)
   = Inr (''(ite (>= 5 0) ((_ int2bv 8) 5) (bvneg ((_ int2bv 8) (- 5))))'', sessionWith None)"
  using C5_int2bv_rendering [of "sessionWith None" "Expression ''5'' [] None" "sessionWith None"
      "Expression ''8'' [] None" None]
  by simp

subsection \<open>The generated tail command\<close>

lemma evalExprDeclarations_shape:
  "evalExprDeclarations st i command es = Inr (c, st') \<Longrightarrow>
   \<exists>texts. toSExprs st es = Inr (texts, st') \<and> length texts = length es \<and>
     c = command @ concat (map evalExprDeclaration (enumerate i (zip (map evalSortWord es) texts)))"
proof (induction es arbitrary: st i command)
  case Nil
  then show ?case by simp
next
  case (Cons e es)
  from Cons.prems obtain s t st1 where s: "sort e = Some s" and k: "kind s = Kind_Int \<or> kind s = Kind_Bool"
    and a: "toSExpr st e = Inr (t, st1)"
    and b: "evalExprDeclarations st1 (Suc i)
              ((command @ ''(declare-const |EVALEXPR_'' @ to_string i @ ''| '' @
                  (if kind s = Kind_Int then ''Int'' else ''Bool'') @ '')\<newline>'') @
               ''(assert (= |EVALEXPR_'' @ to_string i @ ''| '' @ t @ ''))\<newline>'') es = Inr (c, st')"
    by (auto simp: Let_def split: option.splits if_splits sum.splits)
  from Cons.IH [OF b] obtain texts where ts: "toSExprs st1 es = Inr (texts, st')"
    and len: "length texts = length es"
    and c: "c = ((command @ ''(declare-const |EVALEXPR_'' @ to_string i @ ''| '' @
                  (if kind s = Kind_Int then ''Int'' else ''Bool'') @ '')\<newline>'') @
               ''(assert (= |EVALEXPR_'' @ to_string i @ ''| '' @ t @ ''))\<newline>'') @
              concat (map evalExprDeclaration (enumerate (Suc i) (zip (map evalSortWord es) texts)))"
    by blast
  have w: "evalSortWord e = (if kind s = Kind_Int then ''Int'' else ''Bool'')"
    using s by (simp add: evalSortWord_def)
  have "toSExprs st (e # es) = Inr (t # texts, st')" using a ts by simp
  moreover have "length (t # texts) = length (e # es)" using len by simp
  moreover have "c = command @ concat (map evalExprDeclaration
                      (enumerate i (zip (map evalSortWord (e # es)) (t # texts))))"
    unfolding c by (simp add: evalExprDeclaration_def w)
  ultimately show ?case by blast
qed

lemma evalExprDeclarations_bad_sort:
  "\<exists>e \<in> set es. \<exists>s. sort e = Some s \<and> kind s \<noteq> Kind_Int \<and> kind s \<noteq> Kind_Bool \<Longrightarrow>
   isl (evalExprDeclarations st i command es)"
proof (induction es arbitrary: st i command)
  case Nil
  then show ?case by simp
next
  case (Cons e es)
  show ?case
  proof (cases "\<exists>s. sort e = Some s \<and> kind s \<noteq> Kind_Int \<and> kind s \<noteq> Kind_Bool")
    case True
    then show ?thesis by auto
  next
    case False
    then have "\<exists>e \<in> set es. \<exists>s. sort e = Some s \<and> kind s \<noteq> Kind_Int \<and> kind s \<noteq> Kind_Bool"
      using Cons.prems by auto
    then have "\<And>st i command. isl (evalExprDeclarations st i command es)" by (rule Cons.IH)
    then show ?thesis by (auto simp: Let_def split: option.splits sum.splits)
  qed
qed

lemma evalExprDeclarations_complete:
  "toSExprs st es = Inr (texts, st') \<Longrightarrow>
   \<forall>e \<in> set es. \<exists>s. sort e = Some s \<and> (kind s = Kind_Int \<or> kind s = Kind_Bool) \<Longrightarrow>
   evalExprDeclarations st i command es =
     Inr (command @ concat (map evalExprDeclaration (enumerate i (zip (map evalSortWord es) texts))), st')"
proof (induction es arbitrary: st i command texts)
  case Nil
  then show ?case by simp
next
  case (Cons e es)
  from Cons.prems(1) obtain t st1 ts where a: "toSExpr st e = Inr (t, st1)"
    and b: "toSExprs st1 es = Inr (ts, st')" and texts: "texts = t # ts"
    by (auto split: sum.splits)
  from Cons.prems(2) obtain s where s: "sort e = Some s" and k: "kind s = Kind_Int \<or> kind s = Kind_Bool"
    by auto
  have rest: "\<forall>e \<in> set es. \<exists>s. sort e = Some s \<and> (kind s = Kind_Int \<or> kind s = Kind_Bool)"
    using Cons.prems(2) by simp
  have w: "evalSortWord e = (if kind s = Kind_Int then ''Int'' else ''Bool'')"
    using s by (simp add: evalSortWord_def)
  note ih = Cons.IH [OF b rest, of "Suc i"]
  show ?case
    using s k a by (simp add: Let_def ih texts evalExprDeclaration_def w)
qed

text \<open>
  Claim C3, as amended.  For no expression to evaluate the tail command is exactly
  \<open>(check-sat)\<close> and a newline.  For \<open>k > 0\<close> expressions the command is generated
  when every expression has sort Int or Bool and renders, and then it is, for each index
  \<open>i\<close> in order, a declare-const of the quoted name \<open>|EVALEXPR_i|\<close> with sort \<open>Int\<close>
  or \<open>Bool\<close> and an assertion equating that name to the text of the \<open>i\<close>-th expression,
  then \<open>(check-sat)\<close>, then the single command
  \<open>(get-value (|EVALEXPR_0| ... |EVALEXPR_{k-1}| ))\<close> with the names quoted, in
  declaration order, each command on its own line.  An expression whose sort is neither
  Int nor Bool is a contract violation: no command is returned.
\<close>

theorem C3_tail_command:
  "checkSatAndGetValuesCommand st [] = Inr (''(check-sat)\<newline>'', st) \<and>
   (es \<noteq> [] \<longrightarrow>
      (\<forall>command st'. checkSatAndGetValuesCommand st es = Inr (command, st') \<longrightarrow>
         (\<exists>texts. toSExprs st es = Inr (texts, st') \<and> length texts = length es \<and>
            command = tailCommandText (zip (map evalSortWord es) texts)))) \<and>
   (es \<noteq> [] \<longrightarrow>
      (\<forall>texts st'. toSExprs st es = Inr (texts, st') \<and>
          (\<forall>e \<in> set es. \<exists>s. sort e = Some s \<and> (kind s = Kind_Int \<or> kind s = Kind_Bool)) \<longrightarrow>
          checkSatAndGetValuesCommand st es = Inr (tailCommandText (zip (map evalSortWord es) texts), st'))) \<and>
   ((\<exists>e \<in> set es. \<exists>s. sort e = Some s \<and> kind s \<noteq> Kind_Int \<and> kind s \<noteq> Kind_Bool) \<longrightarrow>
      isl (checkSatAndGetValuesCommand st es))"
proof (intro conjI impI allI)
  show "checkSatAndGetValuesCommand st [] = Inr (''(check-sat)\<newline>'', st)"
    by (simp add: checkSatAndGetValuesCommand_def)
next
  fix command st'
  assume ne: "es \<noteq> []" and r: "checkSatAndGetValuesCommand st es = Inr (command, st')"
  from r ne obtain c where d: "evalExprDeclarations st 0 [] es = Inr (c, st')"
    and cmd: "command = c @ ''(check-sat)\<newline>'' @ ''(get-value ('' @ evalExprNames (length es) @ ''))\<newline>''"
    by (auto simp: checkSatAndGetValuesCommand_def split: sum.splits)
  from evalExprDeclarations_shape [OF d] obtain texts where ts: "toSExprs st es = Inr (texts, st')"
    and len: "length texts = length es"
    and c: "c = [] @ concat (map evalExprDeclaration (enumerate 0 (zip (map evalSortWord es) texts)))"
    by blast
  have "command = tailCommandText (zip (map evalSortWord es) texts)"
    unfolding cmd c using len by (simp add: tailCommandText_def evalExprNames_def)
  then show "\<exists>texts. toSExprs st es = Inr (texts, st') \<and> length texts = length es \<and>
            command = tailCommandText (zip (map evalSortWord es) texts)"
    using ts len by blast
next
  fix texts st'
  assume ne: "es \<noteq> []"
    and a: "toSExprs st es = Inr (texts, st') \<and>
          (\<forall>e \<in> set es. \<exists>s. sort e = Some s \<and> (kind s = Kind_Int \<or> kind s = Kind_Bool))"
  then have ts: "toSExprs st es = Inr (texts, st')"
    and ok: "\<forall>e \<in> set es. \<exists>s. sort e = Some s \<and> (kind s = Kind_Int \<or> kind s = Kind_Bool)"
    by simp_all
  have d: "evalExprDeclarations st 0 [] es =
     Inr ([] @ concat (map evalExprDeclaration (enumerate 0 (zip (map evalSortWord es) texts))), st')"
    using ts ok by (rule evalExprDeclarations_complete)
  have "\<exists>c. evalExprDeclarations st 0 [] es = Inr (c, st')" using d by blast
  then obtain c where d': "evalExprDeclarations st 0 [] es = Inr (c, st')" by blast
  from evalExprDeclarations_shape [OF d'] ts have len: "length texts = length es" by auto
  show "checkSatAndGetValuesCommand st es = Inr (tailCommandText (zip (map evalSortWord es) texts), st')"
    using ne d len by (simp add: checkSatAndGetValuesCommand_def tailCommandText_def evalExprNames_def)
next
  assume bad: "\<exists>e \<in> set es. \<exists>s. sort e = Some s \<and> kind s \<noteq> Kind_Int \<and> kind s \<noteq> Kind_Bool"
  then have ne: "es \<noteq> []" by auto
  show "isl (checkSatAndGetValuesCommand st es)"
    using evalExprDeclarations_bad_sort [OF bad, of st 0 "[]"] ne
    by (auto simp: checkSatAndGetValuesCommand_def split: sum.splits)
qed

theorem C3_tail_command_witness:
  "twoEvalExprs \<noteq> [] \<and>
   checkSatAndGetValuesCommand (sessionWith None) twoEvalExprs
   = Inr (''(declare-const |EVALEXPR_0| Int)\<newline>(assert (= |EVALEXPR_0| x))\<newline>(declare-const |EVALEXPR_1| Bool)\<newline>(assert (= |EVALEXPR_1| (not b)))\<newline>(check-sat)\<newline>(get-value (|EVALEXPR_0| |EVALEXPR_1| ))\<newline>'',
          sessionWith None) \<and>
   toSExprs (sessionWith None) twoEvalExprs = Inr ([''x'', ''(not b)''], sessionWith None) \<and>
   tailCommandText (zip (map evalSortWord twoEvalExprs) [''x'', ''(not b)''])
   = ''(declare-const |EVALEXPR_0| Int)\<newline>(assert (= |EVALEXPR_0| x))\<newline>(declare-const |EVALEXPR_1| Bool)\<newline>(assert (= |EVALEXPR_1| (not b)))\<newline>(check-sat)\<newline>(get-value (|EVALEXPR_0| |EVALEXPR_1| ))\<newline>'' \<and>
   isl (checkSatAndGetValuesCommand (sessionWith None) [Expression ''v'' [] (Some (BitVectorSort 0 8))])"
  using C3_tail_command [of "sessionWith None" twoEvalExprs]
    C3_tail_command [of "sessionWith None" "[Expression ''v'' [] (Some (BitVectorSort 0 8))]"]
  by (simp add: twoEvalExprs_def checkSatAndGetValuesCommand_def evalExprNames_def
        tailCommandText_def evalSortWord_def evalExprDeclaration_def
        enumerate_eq_zip to_string_0 to_string_1 upt_rec)

text \<open>
  Claim C3 as stated fails in the form of the get-value command: for one expression
  the command that is generated does not contain \<open>(get-value (EVALEXPR_0 ))\<close>; the
  names are written between bars.
\<close>

theorem C3_get_value_form_counterexample:
  "checkSatAndGetValuesCommand (sessionWith None) [Expression ''x'' [] (Some (IntSort 0 True))]
   = Inr (''(declare-const |EVALEXPR_0| Int)\<newline>(assert (= |EVALEXPR_0| x))\<newline>(check-sat)\<newline>(get-value (|EVALEXPR_0| ))\<newline>'',
          sessionWith None) \<and>
   claimedGetValue 1 = ''(get-value (EVALEXPR_0 ))'' \<and>
   \<not> containsText ''(declare-const |EVALEXPR_0| Int)\<newline>(assert (= |EVALEXPR_0| x))\<newline>(check-sat)\<newline>(get-value (|EVALEXPR_0| ))\<newline>''
         (claimedGetValue 1)"
  by (simp add: checkSatAndGetValuesCommand_def evalExprNames_def to_string_0 claimedGetValue_def
        starts_with_def)

subsection \<open>Value extraction\<close>

lemma takeWhile_stop: "\<not> P y \<Longrightarrow> takeWhile P (xs @ y # ys) = takeWhile P xs"
  by (induction xs) auto

lemma dropWhile_stop: "\<not> P y \<Longrightarrow> dropWhile P (xs @ y # ys) = dropWhile P xs @ y # ys"
  by (induction xs) auto

lemma parseValuesFrom_Nil: "parseValuesFrom s = [] \<longleftrightarrow> s = []"
  by (subst parseValuesFrom.simps) (simp add: Let_def)

lemma parseValuesFrom_token:
  "token \<in> set (parseValuesFrom s) \<Longrightarrow> CHR '')'' \<notin> set token"
proof (induction s rule: parseValuesFrom.induct)
  case (1 s)
  show ?case
  proof (cases "s = []")
    case True
    then show ?thesis using 1(2) by (simp add: parseValuesFrom.simps)
  next
    case False
    let ?valStart0 = "dropWhile (\<lambda>c. c \<noteq> CHR '' '') s"
    let ?valStart = "if ?valStart0 \<noteq> [] then tl ?valStart0 else ?valStart0"
    let ?valEnd = "dropWhile (\<lambda>c. c \<noteq> CHR '')'') ?valStart"
    have e: "parseValuesFrom s =
        takeWhile (\<lambda>c. c \<noteq> CHR '')'') ?valStart # parseValuesFrom (dropWhile (\<lambda>c. c \<noteq> CHR ''('') ?valEnd)"
      using False by (subst parseValuesFrom.simps) (simp only: Let_def if_False)
    from 1(2) e consider "token = takeWhile (\<lambda>c. c \<noteq> CHR '')'') ?valStart"
      | "token \<in> set (parseValuesFrom (dropWhile (\<lambda>c. c \<noteq> CHR ''('') ?valEnd))"
      by auto
    then show ?thesis
    proof cases
      case 1
      then show ?thesis using set_takeWhileD [of "CHR '')''" "\<lambda>c. c \<noteq> CHR '')''" ?valStart] by blast
    next
      case 2
      then show ?thesis using "1.IH" [OF False refl refl refl] by blast
    qed
  qed
qed

lemma parseValuesFrom_step:
  assumes "CHR '' '' \<notin> set pre" and "CHR ''('' \<notin> set (dropWhile (\<lambda>c. c \<noteq> CHR '')'') v)"
  shows "parseValuesFrom (pre @ CHR '' '' # v @ CHR '')'' # t)
         = takeWhile (\<lambda>c. c \<noteq> CHR '')'') v # parseValuesFrom (dropWhile (\<lambda>c. c \<noteq> CHR ''('') t)"
proof -
  have d1: "dropWhile (\<lambda>c. c \<noteq> CHR '' '') (pre @ CHR '' '' # v @ CHR '')'' # t) = CHR '' '' # v @ CHR '')'' # t"
    using assms(1) by (rule dropWhile_notin)
  have t1: "takeWhile (\<lambda>c. c \<noteq> CHR '')'') (v @ CHR '')'' # t) = takeWhile (\<lambda>c. c \<noteq> CHR '')'') v"
    by (rule takeWhile_stop) simp
  have d2: "dropWhile (\<lambda>c. c \<noteq> CHR '')'') (v @ CHR '')'' # t) = dropWhile (\<lambda>c. c \<noteq> CHR '')'') v @ CHR '')'' # t"
    by (rule dropWhile_stop) simp
  have "dropWhile (\<lambda>c. c \<noteq> CHR ''('') (dropWhile (\<lambda>c. c \<noteq> CHR '')'') v @ CHR '')'' # t)
        = dropWhile (\<lambda>c. c \<noteq> CHR ''('') (CHR '')'' # t)"
    using assms(2) by (intro dropWhile_append2) auto
  then have d3: "dropWhile (\<lambda>c. c \<noteq> CHR ''('') (dropWhile (\<lambda>c. c \<noteq> CHR '')'') v @ CHR '')'' # t)
        = dropWhile (\<lambda>c. c \<noteq> CHR ''('') t" by simp
  show ?thesis
    by (subst parseValuesFrom.simps) (simp add: d1 t1 d2 d3 Let_def)
qed

lemma parseValuesFrom_replyPairs:
  assumes "items \<noteq> []"
    and "\<forall>item \<in> set items. CHR '' '' \<notin> set (fst item) \<and>
            CHR ''('' \<notin> set (dropWhile (\<lambda>c. c \<noteq> CHR '')'') (fst (snd item))) \<and>
            CHR ''('' \<notin> set (snd (snd item))"
    and "CHR '' '' \<notin> set pre"
  shows "parseValuesFrom (pre @ replyPairsText items) =
           map (\<lambda>item. takeWhile (\<lambda>c. c \<noteq> CHR '')'') (fst (snd item))) items"
  using assms
proof (induction items arbitrary: pre)
  case Nil
  then show ?case by simp
next
  case (Cons item items)
  obtain nm v sep where item: "item = (nm, v, sep)" by (cases item)
  have sp: "CHR '' '' \<notin> set (pre @ ''('' @ nm)" using Cons.prems item by simp
  have cl: "CHR ''('' \<notin> set (dropWhile (\<lambda>c. c \<noteq> CHR '')'') v)" using Cons.prems item by simp
  have op: "CHR ''('' \<notin> set sep" using Cons.prems item by simp
  have e: "pre @ replyPairsText (item # items) = (pre @ ''('' @ nm) @ CHR '' '' # v @ CHR '')'' # (sep @ replyPairsText items)"
    using item by simp
  show ?case
  proof (cases "items = []")
    case True
    have d3: "dropWhile (\<lambda>c. c \<noteq> CHR ''('') (sep @ replyPairsText items) = []"
      using True op by auto
    show ?thesis
      unfolding e parseValuesFrom_step [OF sp cl] d3 using True item
      by (simp add: parseValuesFrom.simps)
  next
    case False
    then obtain r where r: "replyPairsText items = CHR ''('' # r"
      by (cases items) auto
    have d3: "dropWhile (\<lambda>c. c \<noteq> CHR ''('') (sep @ replyPairsText items) = [] @ replyPairsText items"
      unfolding r using op by (simp add: dropWhile_notin)
    have ih: "parseValuesFrom ([] @ replyPairsText items) =
                map (\<lambda>item. takeWhile (\<lambda>c. c \<noteq> CHR '')'') (fst (snd item))) items"
      using Cons.prems False by (intro Cons.IH) auto
    show ?thesis
      unfolding e parseValuesFrom_step [OF sp cl] d3 ih using item by simp
  qed
qed

lemma parseValues_5: "parseValues ''sat\<newline>((EVALEXPR_0 5))\<newline>'' = [''5'']"
  by (simp add: parseValues_def parseValuesFrom.simps)

text \<open>
  Claim C7, as amended.  Value extraction skips the first line of the reply; in the rest
  it takes, again and again, the text from after the next blank up to the next closing
  parenthesis as a token and goes on at the next opening parenthesis.  For a reply made of
  a verdict line and then one or more parenthesized \<open>(name value)\<close> pairs (names without
  blanks, no opening parenthesis between one pair and the next or after the last, nor in a
  value after its first closing parenthesis), \<open>parseValues\<close> returns one token for each
  pair, in the order of the reply: the value up to its first closing parenthesis, which is
  the whole value when the value has no closing parenthesis.  A reply that ends after its
  first line yields one empty token.  For every reply, no token contains a closing
  parenthesis, and there is no token exactly when the reply has no newline.  At the
  reply \<open>sat\<close>, newline, \<open>((EVALEXPR_0 5) (EVALEXPR_1 true))\<close>, newline, the result is the
  list of \<open>5\<close> and \<open>true\<close> (the instance below).
\<close>

theorem C7_parseValues_pairs:
  assumes "items \<noteq> []"
    and "\<forall>item \<in> set items. CHR '' '' \<notin> set (fst item) \<and>
            CHR ''('' \<notin> set (dropWhile (\<lambda>c. c \<noteq> CHR '')'') (fst (snd item))) \<and>
            CHR ''('' \<notin> set (snd (snd item))"
    and "CHR ''\<newline>'' \<notin> set verdict"
  shows "parseValues (verdict @ ''\<newline>'' @ ''('' @ replyPairsText items) =
           map (\<lambda>item. takeWhile (\<lambda>c. c \<noteq> CHR '')'') (fst (snd item))) items \<and>
         ((\<forall>item \<in> set items. CHR '')'' \<notin> set (fst (snd item))) \<longrightarrow>
            parseValues (verdict @ ''\<newline>'' @ ''('' @ replyPairsText items) =
              map (\<lambda>item. fst (snd item)) items) \<and>
         parseValues (verdict @ ''\<newline>'') = [''''] \<and>
         (parseValues reply = [] \<longleftrightarrow> CHR ''\<newline>'' \<notin> set reply) \<and>
         (\<forall>token \<in> set (parseValues reply). CHR '')'' \<notin> set token)"
proof -
  have "dropWhile (\<lambda>c. c \<noteq> CHR ''\<newline>'') (verdict @ CHR ''\<newline>'' # (''('' @ replyPairsText items))
        = CHR ''\<newline>'' # (''('' @ replyPairsText items)"
    using assms(3) by (rule dropWhile_notin)
  then have "parseValues (verdict @ ''\<newline>'' @ ''('' @ replyPairsText items)
        = parseValuesFrom (''\<newline>('' @ replyPairsText items)"
    by (simp add: parseValues_def)
  also have "\<dots> = map (\<lambda>item. takeWhile (\<lambda>c. c \<noteq> CHR '')'') (fst (snd item))) items"
    using parseValuesFrom_replyPairs [OF assms(1,2), of "''\<newline>(''"] by simp
  finally have tokens: "parseValues (verdict @ ''\<newline>'' @ ''('' @ replyPairsText items) =
           map (\<lambda>item. takeWhile (\<lambda>c. c \<noteq> CHR '')'') (fst (snd item))) items" .
  have whole: "(\<forall>item \<in> set items. CHR '')'' \<notin> set (fst (snd item))) \<longrightarrow>
            parseValues (verdict @ ''\<newline>'' @ ''('' @ replyPairsText items) =
              map (\<lambda>item. fst (snd item)) items"
  proof
    assume "\<forall>item \<in> set items. CHR '')'' \<notin> set (fst (snd item))"
    then have "map (\<lambda>item. takeWhile (\<lambda>c. c \<noteq> CHR '')'') (fst (snd item))) items =
                 map (\<lambda>item. fst (snd item)) items"
      by (intro map_cong refl takeWhile_eq_all_conv [THEN iffD2]) auto
    then show "parseValues (verdict @ ''\<newline>'' @ ''('' @ replyPairsText items) =
              map (\<lambda>item. fst (snd item)) items" using tokens by simp
  qed
  have none: "parseValues reply = [] \<longleftrightarrow> CHR ''\<newline>'' \<notin> set reply"
    by (auto simp: parseValues_def parseValuesFrom_Nil dropWhile_eq_Nil_conv)
  have closing: "\<forall>token \<in> set (parseValues reply). CHR '')'' \<notin> set token"
    using parseValuesFrom_token by (auto simp: parseValues_def)
  have "dropWhile (\<lambda>c. c \<noteq> CHR ''\<newline>'') (verdict @ CHR ''\<newline>'' # []) = CHR ''\<newline>'' # []"
    using assms(3) by (rule dropWhile_notin)
  then have empty: "parseValues (verdict @ ''\<newline>'') = ['''']"
    by (simp add: parseValues_def parseValuesFrom.simps)
  show ?thesis using tokens whole empty none closing by blast
qed

theorem C7_parseValues_pairs_witness:
  "parseValues ''sat\<newline>((EVALEXPR_0 5) (EVALEXPR_1 true))\<newline>'' = [''5'', ''true'']"
  using C7_parseValues_pairs [of "[(''EVALEXPR_0'', ''5'', '' ''), (''EVALEXPR_1'', ''true'', '')\<newline>'')]" "''sat''"]
  by simp

text \<open>
  Claim C7 as stated fails: the value \<open>(- 5)\<close> of a pair is returned as \<open>(- 5\<close>, cut at its
  closing parenthesis, and a reply with a first line and no pair yields one empty token
  rather than none.
\<close>

theorem C7_value_token_counterexample:
  "''sat\<newline>((EVALEXPR_0 (- 5)))\<newline>'' =
     ''sat'' @ ''\<newline>'' @ ''('' @ replyPairsText [(''EVALEXPR_0'', ''(- 5)'', '')\<newline>'')] \<and>
   parseValues ''sat\<newline>((EVALEXPR_0 (- 5)))\<newline>'' = [''(- 5''] \<and>
   parseValues ''sat\<newline>'' = ['''']"
  by (simp add: parseValues_def parseValuesFrom.simps)

subsection \<open>The aggregation loop\<close>

lemma solverAnswered_simps [simp]:
  "solverAnswered SATISFIABLE" "solverAnswered UNSATISFIABLE"
  "\<not> solverAnswered UNKNOWN" "\<not> solverAnswered CONFLICTING" "\<not> solverAnswered ERROR"
  by (simp_all add: solverAnswered_def)

lemma resultFromSolverResponse_not_conflicting [simp]:
  "resultFromSolverResponse r \<noteq> CONFLICTING"
  by (simp add: resultFromSolverResponse_def)

lemma checkLoop_verdict_cong:
  "lastResult ls = lastResult ls' \<Longrightarrow> finalValues ls = finalValues ls' \<Longrightarrow>
   lastResult (checkLoop cb k q cmds ls) = lastResult (checkLoop cb k q cmds ls') \<and>
   finalValues (checkLoop cb k q cmds ls) = finalValues (checkLoop cb k q cmds ls')"
proof (induction cmds arbitrary: ls ls')
  case Nil
  then show ?case by simp
next
  case (Cons s rest)
  show ?case
    using Cons.prems
    by (auto simp: Let_def intro!: Cons.IH [THEN conjunct1] Cons.IH [THEN conjunct2])
qed

lemma checkLoop_unknown_step:
  assumes "success (cb (k @ '' '' @ u) q)"
    and "resultFromSolverResponse (responseOrErrorMessage (cb (k @ '' '' @ u) q)) = UNKNOWN"
  shows "checkLoop cb k q (u # rest) ls =
         checkLoop cb k q rest
           (ls\<lparr>consulted := consulted ls @ [k @ '' '' @ u],
               lastResult := (if lastResult ls = ERROR then UNKNOWN else lastResult ls)\<rparr>)"
  using assms by (simp add: Let_def)

lemma checkLoop_unknown_after_definitive:
  assumes "success (cb (k @ '' '' @ u) q)"
    and "resultFromSolverResponse (responseOrErrorMessage (cb (k @ '' '' @ u) q)) = UNKNOWN"
    and "solverAnswered (lastResult ls) \<or>
         (\<exists>s \<in> set xs. success (cb (k @ '' '' @ s) q) \<and>
            solverAnswered (resultFromSolverResponse (responseOrErrorMessage (cb (k @ '' '' @ s) q))))"
  shows "lastResult (checkLoop cb k q (xs @ u # ys) ls) = lastResult (checkLoop cb k q (xs @ ys) ls) \<and>
         finalValues (checkLoop cb k q (xs @ u # ys) ls) = finalValues (checkLoop cb k q (xs @ ys) ls)"
  using assms(3)
proof (induction xs arbitrary: ls)
  case Nil
  then have a: "solverAnswered (lastResult ls)" by simp
  then have ne: "lastResult ls \<noteq> ERROR" by auto
  note step = checkLoop_unknown_step [of cb k u q, OF assms(1,2)]
  show ?case
    unfolding append_Nil step
    using ne by (intro checkLoop_verdict_cong) simp_all
next
  case (Cons x xs)
  show ?case
    using Cons.prems
    by (auto simp: Let_def intro!: Cons.IH [THEN conjunct1] Cons.IH [THEN conjunct2])
qed

lemma checkLoop_error_iff:
  "lastResult (checkLoop cb k q cmds ls) = ERROR \<longleftrightarrow>
     lastResult ls = ERROR \<and>
     (\<forall>s \<in> set cmds. \<not> success (cb (k @ '' '' @ s) q) \<or>
        resultFromSolverResponse (responseOrErrorMessage (cb (k @ '' '' @ s) q)) = ERROR)"
proof (induction cmds arbitrary: ls)
  case Nil
  then show ?case by simp
next
  case (Cons s rest)
  show ?case
    by (cases "resultFromSolverResponse (responseOrErrorMessage (cb (k @ '' '' @ s) q))")
       (auto simp: Let_def Cons.IH)
qed

lemma check_unfold:
  assumes "m_smtCallback st = Some cb" and "dumpQuery st es = Inr (query, st1)"
  shows "check st k es =
     (let ls = checkLoop cb k query (solverCommands (m_enabledSolvers st))
                 \<lparr>lastResult = ERROR, finalValues = [], consulted = []\<rparr>
      in Inr ((lastResult ls, finalValues ls), consulted ls,
              (if lastResult ls = ERROR
               then st1\<lparr>m_unhandledQueries := m_unhandledQueries st @ [query]\<rparr> else st1)))"
  using assms dumpQuery_frame [OF assms(2)]
  by (simp add: check_def frame_def Let_def)

lemma check_raises_iff:
  "isl (check st k es) \<longleftrightarrow> isl (dumpQuery st es) \<or> m_smtCallback st = None"
proof (cases "dumpQuery st es")
  case (Inl e)
  then show ?thesis by (simp add: check_def)
next
  case (Inr r)
  obtain query st1 where r: "r = (query, st1)" by (cases r)
  have "m_smtCallback st1 = m_smtCallback st"
    using dumpQuery_frame [of st es query st1] Inr r by (simp add: frame_def)
  then show ?thesis using Inr r by (simp add: check_def Let_def split: option.splits)
qed

lemma dumpQuery_example:
  "dumpQuery (sessionWith cb) [Expression ''x'' [] (Some (IntSort 0 True))] = Inr (exampleQuery, sessionWith cb)"
  by (simp add: dumpQuery_def checkSatAndGetValuesCommand_def evalExprNames_def to_string_0
        exampleQuery_def sessionWith_def)

subsection \<open>Unknown replies in the aggregation\<close>

text \<open>
  Claim C6.  In the loop of \<open>check\<close>, a successful reply classified as Unknown is adopted
  as the running result only when the running result is still Error, and otherwise
  leaves it as it is; so in every sequence of backends in which a definitive answer
  (Satisfiable or Unsatisfiable) comes before an Unknown one, the verdict and the values
  are the same as without the Unknown reply.
\<close>

theorem C6_unknown_never_overrides:
  assumes "success (cb (k @ '' '' @ u) q)"
    and "resultFromSolverResponse (responseOrErrorMessage (cb (k @ '' '' @ u) q)) = UNKNOWN"
  shows "checkLoop cb k q (u # rest) ls =
           checkLoop cb k q rest
             (ls\<lparr>consulted := consulted ls @ [k @ '' '' @ u],
                 lastResult := (if lastResult ls = ERROR then UNKNOWN else lastResult ls)\<rparr>) \<and>
         ((\<exists>s \<in> set xs. success (cb (k @ '' '' @ s) q) \<and>
              solverAnswered (resultFromSolverResponse (responseOrErrorMessage (cb (k @ '' '' @ s) q)))) \<longrightarrow>
          lastResult (checkLoop cb k q (xs @ u # ys) \<lparr>lastResult = ERROR, finalValues = [], consulted = []\<rparr>)
            = lastResult (checkLoop cb k q (xs @ ys) \<lparr>lastResult = ERROR, finalValues = [], consulted = []\<rparr>) \<and>
          finalValues (checkLoop cb k q (xs @ u # ys) \<lparr>lastResult = ERROR, finalValues = [], consulted = []\<rparr>)
            = finalValues (checkLoop cb k q (xs @ ys) \<lparr>lastResult = ERROR, finalValues = [], consulted = []\<rparr>))"
proof (intro conjI impI)
  show "checkLoop cb k q (u # rest) ls =
           checkLoop cb k q rest
             (ls\<lparr>consulted := consulted ls @ [k @ '' '' @ u],
                 lastResult := (if lastResult ls = ERROR then UNKNOWN else lastResult ls)\<rparr>)"
    using assms by (rule checkLoop_unknown_step)
next
  assume ex: "\<exists>s \<in> set xs. success (cb (k @ '' '' @ s) q) \<and>
              solverAnswered (resultFromSolverResponse (responseOrErrorMessage (cb (k @ '' '' @ s) q)))"
  note r = checkLoop_unknown_after_definitive [of cb k u q _ xs ys, OF assms disjI2, OF ex]
  show "lastResult (checkLoop cb k q (xs @ u # ys) \<lparr>lastResult = ERROR, finalValues = [], consulted = []\<rparr>)
            = lastResult (checkLoop cb k q (xs @ ys) \<lparr>lastResult = ERROR, finalValues = [], consulted = []\<rparr>)"
    using r by (rule conjunct1)
  show "finalValues (checkLoop cb k q (xs @ u # ys) \<lparr>lastResult = ERROR, finalValues = [], consulted = []\<rparr>)
            = finalValues (checkLoop cb k q (xs @ ys) \<lparr>lastResult = ERROR, finalValues = [], consulted = []\<rparr>)"
    using r by (rule conjunct2)
qed

theorem C6_unknown_never_overrides_witness:
  "success (tableCallback [(''smt-query z3 rlimit=1000000'', ''unsat\<newline>''), (''smt-query cvc4'', ''unknown\<newline>'')]
             (''smt-query'' @ '' '' @ ''cvc4'') ''(check-sat)\<newline>'') \<and>
   resultFromSolverResponse (responseOrErrorMessage
     (tableCallback [(''smt-query z3 rlimit=1000000'', ''unsat\<newline>''), (''smt-query cvc4'', ''unknown\<newline>'')]
        (''smt-query'' @ '' '' @ ''cvc4'') ''(check-sat)\<newline>'')) = UNKNOWN \<and>
   lastResult (checkLoop
     (tableCallback [(''smt-query z3 rlimit=1000000'', ''unsat\<newline>''), (''smt-query cvc4'', ''unknown\<newline>'')])
     ''smt-query'' ''(check-sat)\<newline>'' [''z3 rlimit=1000000'', ''cvc4'']
     \<lparr>lastResult = ERROR, finalValues = [], consulted = []\<rparr>) = UNSATISFIABLE \<and>
   lastResult (checkLoop
     (tableCallback [(''smt-query z3 rlimit=1000000'', ''unsat\<newline>''), (''smt-query cvc4'', ''unknown\<newline>'')])
     ''smt-query'' ''(check-sat)\<newline>'' [''cvc4'']
     \<lparr>lastResult = ERROR, finalValues = [], consulted = []\<rparr>) = UNKNOWN"
  using C6_unknown_never_overrides
    [of "tableCallback [(''smt-query z3 rlimit=1000000'', ''unsat\<newline>''), (''smt-query cvc4'', ''unknown\<newline>'')]"
        "''smt-query''" "''cvc4''" "''(check-sat)\<newline>''" "[]"
        "\<lparr>lastResult = ERROR, finalValues = [], consulted = []\<rparr>" "[''z3 rlimit=1000000'']" "[]"]
  by (simp add: tableCallback_def resultFromSolverResponse_def starts_with_def Let_def)

subsection \<open>Two backends\<close>

text \<open>
  Claim C1.  With both backends enabled and both callbacks succeeding: if both replies
  classify as Satisfiable, \<open>check\<close> returns Satisfiable with the values parsed from the
  reply of the first backend (z3); if one reply classifies as Satisfiable and the other as
  Unsatisfiable, in either order, it returns Conflicting; and whatever commands might
  follow the two in the list, the loop stops at the second definitive answer: the
  callback has been invoked for the first two labels only.
\<close>

theorem C1_two_backends:
  assumes "m_enabledSolvers st = \<lparr>cvc4 = True, z3 = True\<rparr>"
    and "m_smtCallback st = Some cb"
    and "dumpQuery st es = Inr (query, st1)"
    and "success (cb (k @ '' '' @ ''z3 rlimit=1000000'') query)"
    and "success (cb (k @ '' '' @ ''cvc4'') query)"
    and "r1 = resultFromSolverResponse (responseOrErrorMessage (cb (k @ '' '' @ ''z3 rlimit=1000000'') query))"
    and "r2 = resultFromSolverResponse (responseOrErrorMessage (cb (k @ '' '' @ ''cvc4'') query))"
  shows "(r1 = SATISFIABLE \<and> r2 = SATISFIABLE \<longrightarrow>
            check st k es =
              Inr ((SATISFIABLE, parseValues (responseOrErrorMessage (cb (k @ '' '' @ ''z3 rlimit=1000000'') query))),
                   [k @ '' '' @ ''z3 rlimit=1000000'', k @ '' '' @ ''cvc4''], st1)) \<and>
         (r1 = SATISFIABLE \<and> r2 = UNSATISFIABLE \<longrightarrow>
            check st k es =
              Inr ((CONFLICTING, parseValues (responseOrErrorMessage (cb (k @ '' '' @ ''z3 rlimit=1000000'') query))),
                   [k @ '' '' @ ''z3 rlimit=1000000'', k @ '' '' @ ''cvc4''], st1)) \<and>
         (r1 = UNSATISFIABLE \<and> r2 = SATISFIABLE \<longrightarrow>
            check st k es =
              Inr ((CONFLICTING, []), [k @ '' '' @ ''z3 rlimit=1000000'', k @ '' '' @ ''cvc4''], st1)) \<and>
         (solverAnswered r1 \<and> solverAnswered r2 \<and> r1 \<noteq> r2 \<longrightarrow>
            lastResult (checkLoop cb k query (''z3 rlimit=1000000'' # ''cvc4'' # others)
                          \<lparr>lastResult = ERROR, finalValues = [], consulted = []\<rparr>) = CONFLICTING \<and>
            consulted (checkLoop cb k query (''z3 rlimit=1000000'' # ''cvc4'' # others)
                          \<lparr>lastResult = ERROR, finalValues = [], consulted = []\<rparr>)
              = [k @ '' '' @ ''z3 rlimit=1000000'', k @ '' '' @ ''cvc4''])"
proof -
  note u = check_unfold [OF assms(2,3), of k]
  have sc: "solverCommands (m_enabledSolvers st) = [''z3 rlimit=1000000'', ''cvc4'']"
    using assms(1) by (simp add: solverCommands_def)
  show ?thesis
    unfolding u sc using assms(4-7)
    by (auto simp: Let_def)
qed

theorem C1_two_backends_witness:
  "check (sessionWith (Some twoSat)) ''smt-query'' [Expression ''x'' [] (Some (IntSort 0 True))]
     = Inr ((SATISFIABLE, [''5'']), [''smt-query z3 rlimit=1000000'', ''smt-query cvc4''],
            sessionWith (Some twoSat)) \<and>
   check (sessionWith (Some satUnsat)) ''smt-query'' [Expression ''x'' [] (Some (IntSort 0 True))]
     = Inr ((CONFLICTING, [''5'']), [''smt-query z3 rlimit=1000000'', ''smt-query cvc4''],
            sessionWith (Some satUnsat))"
proof -
  have e: "m_enabledSolvers (sessionWith cb) = \<lparr>cvc4 = True, z3 = True\<rparr>" for cb
    by (simp add: sessionWith_def)
  have c: "m_smtCallback (sessionWith (Some cb)) = Some cb" for cb
    by (simp add: sessionWith_def)
  have a: "success (twoSat (''smt-query'' @ '' '' @ ''z3 rlimit=1000000'') exampleQuery)"
          "success (twoSat (''smt-query'' @ '' '' @ ''cvc4'') exampleQuery)"
          "success (satUnsat (''smt-query'' @ '' '' @ ''z3 rlimit=1000000'') exampleQuery)"
          "success (satUnsat (''smt-query'' @ '' '' @ ''cvc4'') exampleQuery)"
    by (simp_all add: twoSat_def satUnsat_def tableCallback_def)
  note t1 = C1_two_backends [where st = "sessionWith (Some twoSat)" and cb = twoSat
      and k = "''smt-query''" and query = exampleQuery and others = "[]",
      OF e c dumpQuery_example a(1,2) refl refl]
  note t2 = C1_two_backends [where st = "sessionWith (Some satUnsat)" and cb = satUnsat
      and k = "''smt-query''" and query = exampleQuery and others = "[]",
      OF e c dumpQuery_example a(3,4) refl refl]
  show ?thesis
    using t1 t2
    by (simp add: twoSat_def satUnsat_def tableCallback_def resultFromSolverResponse_def
          starts_with_def parseValues_5)
qed

subsection \<open>When check raises and when it returns Error\<close>

text \<open>
  Claim C4, as amended.  \<open>check\<close> raises exactly when the query text cannot be generated
  (an expression to evaluate has a sort other than Int or Bool, or does not render) or no
  callback is configured; a failing backend never makes it raise.  Whenever it returns,
  it returns Error exactly when every enabled backend either failed or gave a reply that
  classifies as Error, and in that case, and only then, the full query text is appended
  to the unhandled-query log, once.
\<close>

theorem C4_check_error_iff:
  "(isl (check st k es) \<longleftrightarrow> isl (dumpQuery st es) \<or> m_smtCallback st = None) \<and>
   (\<forall>cb query st1. m_smtCallback st = Some cb \<and> dumpQuery st es = Inr (query, st1) \<longrightarrow>
      (\<exists>res vals calls st2.
           check st k es = Inr ((res, vals), calls, st2) \<and>
           (res = ERROR \<longleftrightarrow>
              (\<forall>s \<in> set (solverCommands (m_enabledSolvers st)).
                 \<not> success (cb (k @ '' '' @ s) query) \<or>
                 resultFromSolverResponse (responseOrErrorMessage (cb (k @ '' '' @ s) query)) = ERROR)) \<and>
           st2 = (if res = ERROR then st1\<lparr>m_unhandledQueries := m_unhandledQueries st @ [query]\<rparr> else st1) \<and>
           m_unhandledQueries st1 = m_unhandledQueries st))"
proof (intro conjI allI impI)
  show "isl (check st k es) \<longleftrightarrow> isl (dumpQuery st es) \<or> m_smtCallback st = None"
    by (rule check_raises_iff)
next
  fix cb query st1
  assume a: "m_smtCallback st = Some cb \<and> dumpQuery st es = Inr (query, st1)"
  then have cbs: "m_smtCallback st = Some cb" and dq: "dumpQuery st es = Inr (query, st1)"
    by simp_all
  note u = check_unfold [OF cbs dq, of k]
  have f: "m_unhandledQueries st1 = m_unhandledQueries st"
    using dumpQuery_frame [OF dq] by (simp add: frame_def)
  show "\<exists>res vals calls st2.
           check st k es = Inr ((res, vals), calls, st2) \<and>
           (res = ERROR \<longleftrightarrow>
              (\<forall>s \<in> set (solverCommands (m_enabledSolvers st)).
                 \<not> success (cb (k @ '' '' @ s) query) \<or>
                 resultFromSolverResponse (responseOrErrorMessage (cb (k @ '' '' @ s) query)) = ERROR)) \<and>
           st2 = (if res = ERROR then st1\<lparr>m_unhandledQueries := m_unhandledQueries st @ [query]\<rparr> else st1) \<and>
           m_unhandledQueries st1 = m_unhandledQueries st"
    unfolding u Let_def using f
    by (simp add: checkLoop_error_iff)
qed

theorem C4_check_error_iff_witness:
  "m_smtCallback onlyZ3Failing = Some (tableCallback []) \<and>
   dumpQuery onlyZ3Failing [] =
     Inr (''(set-option :produce-models true)\<newline>(set-logic ALL)\<newline>(check-sat)\<newline>'', onlyZ3Failing) \<and>
   check onlyZ3Failing ''smt-query'' [] =
     Inr ((ERROR, []), [''smt-query z3 rlimit=1000000''],
          onlyZ3Failing\<lparr>m_unhandledQueries :=
            [''(set-option :produce-models true)\<newline>(set-logic ALL)\<newline>(check-sat)\<newline>'']\<rparr>)"
proof -
  have c: "m_smtCallback onlyZ3Failing = Some (tableCallback [])"
    by (simp add: onlyZ3Failing_def sessionWith_def)
  have d: "dumpQuery onlyZ3Failing [] =
     Inr (''(set-option :produce-models true)\<newline>(set-logic ALL)\<newline>(check-sat)\<newline>'', onlyZ3Failing)"
    by (simp add: dumpQuery_def checkSatAndGetValuesCommand_def onlyZ3Failing_def sessionWith_def)
  from C4_check_error_iff [of onlyZ3Failing "''smt-query''" "[]"] c d
  obtain res vals calls st2 where r: "check onlyZ3Failing ''smt-query'' [] = Inr ((res, vals), calls, st2)"
    and e: "res = ERROR \<longleftrightarrow>
              (\<forall>s \<in> set (solverCommands (m_enabledSolvers onlyZ3Failing)).
                 \<not> success (tableCallback [] (''smt-query'' @ '' '' @ s)
                     ''(set-option :produce-models true)\<newline>(set-logic ALL)\<newline>(check-sat)\<newline>'') \<or>
                 resultFromSolverResponse (responseOrErrorMessage (tableCallback [] (''smt-query'' @ '' '' @ s)
                     ''(set-option :produce-models true)\<newline>(set-logic ALL)\<newline>(check-sat)\<newline>'')) = ERROR)"
    and s2: "st2 = (if res = ERROR then onlyZ3Failing\<lparr>m_unhandledQueries := m_unhandledQueries onlyZ3Failing @
               [''(set-option :produce-models true)\<newline>(set-logic ALL)\<newline>(check-sat)\<newline>'']\<rparr> else onlyZ3Failing)"
    by blast
  have "res = ERROR" using e by (simp add: tableCallback_def)
  then have "st2 = onlyZ3Failing\<lparr>m_unhandledQueries :=
            [''(set-option :produce-models true)\<newline>(set-logic ALL)\<newline>(check-sat)\<newline>'']\<rparr>"
    using s2 by (simp add: onlyZ3Failing_def sessionWith_def)
  moreover have "vals = [] \<and> calls = [''smt-query z3 rlimit=1000000'']"
    using r c d
    by (simp add: check_def solverCommands_def onlyZ3Failing_def sessionWith_def tableCallback_def Let_def)
  ultimately show ?thesis using c d r \<open>res = ERROR\<close> by simp
qed

text \<open>
  Claim C4 as stated fails: \<open>check\<close> does not return a result for every input.  With
  an expression of a bit-vector sort to evaluate it raises the assertion of
  \<open>checkSatAndGetValuesCommand\<close>.
\<close>

theorem C4_check_raises_counterexample:
  "check (sessionWith (Some twoSat)) ''smt-query'' [Expression ''x'' [] (Some (BitVectorSort 0 8))]
   = Inl (SMTAssert ''Invalid sort for expression to evaluate.'')"
  by (simp add: check_def dumpQuery_def checkSatAndGetValuesCommand_def)

subsection \<open>The s-expression parser\<close>

lemmas parser_eval =
  SMTLib2Parser_on_def get'_def parseExpression_def parseExpressionRec.simps skipWhitespace.simps
  parseTokenLoop.simps parseToken_def advance_def isWhiteSpace_def skipComment.simps

lemma skipComment_line:
  "m_good p \<Longrightarrow> m_token p \<noteq> CHR ''\<newline>'' \<Longrightarrow> m_token p \<noteq> CHR 0x00 \<Longrightarrow>
   m_input p = comment @ CHR ''\<newline>'' # rest \<Longrightarrow>
   CHR ''\<newline>'' \<notin> set comment \<Longrightarrow> CHR 0x00 \<notin> set comment \<Longrightarrow>
   skipComment p = Some (p\<lparr>m_input := rest, m_token := CHR ''\<newline>''\<rparr>)"
proof (induction comment arbitrary: p)
  case Nil
  have g: "get' p = p\<lparr>m_input := rest, m_token := CHR ''\<newline>''\<rparr>"
    using Nil by (simp add: get'_def)
  have "skipComment p = skipComment (get' p)"
    using Nil by (subst skipComment.simps) simp
  also have "\<dots> = Some (p\<lparr>m_input := rest, m_token := CHR ''\<newline>''\<rparr>)"
    unfolding g by (subst skipComment.simps) simp
  finally show ?case .
next
  case (Cons c cs)
  let ?p1 = "p\<lparr>m_input := cs @ CHR ''\<newline>'' # rest, m_token := c\<rparr>"
  have g: "get' p = ?p1" using Cons.prems by (simp add: get'_def)
  have "skipComment p = skipComment ?p1"
    using Cons.prems g by (subst skipComment.simps) simp
  also have "\<dots> = Some (?p1\<lparr>m_input := rest, m_token := CHR ''\<newline>''\<rparr>)"
    using Cons.prems by (intro Cons.IH) auto
  finally show ?case by simp
qed

lemma advance_comment:
  assumes "m_good p" and "m_input p = CHR '';'' # comment @ CHR ''\<newline>'' # rest"
    and "CHR ''\<newline>'' \<notin> set comment" and "CHR 0x00 \<notin> set comment"
  shows "advance p = Some (Inr (p\<lparr>m_input := rest, m_token := CHR ''\<newline>''\<rparr>))"
proof -
  let ?p1 = "p\<lparr>m_input := comment @ CHR ''\<newline>'' # rest, m_token := CHR '';''\<rparr>"
  have g: "get' p = ?p1" using assms by (simp add: get'_def)
  have "skipComment ?p1 = Some (?p1\<lparr>m_input := rest, m_token := CHR ''\<newline>''\<rparr>)"
    using assms by (intro skipComment_line) simp_all
  then show ?thesis using assms(1) g by (simp add: advance_def)
qed

lemma advance_token: "advance (p\<lparr>m_token := c\<rparr>) = advance p"
  by (simp add: advance_def get'_def)

lemma skipWhitespace_comment:
  assumes "m_good p" and "isWhiteSpace (m_token p)"
    and "m_input p = CHR '';'' # comment @ CHR ''\<newline>'' # rest"
    and "CHR ''\<newline>'' \<notin> set comment" and "CHR 0x00 \<notin> set comment"
  shows "skipWhitespace p = skipWhitespace (p\<lparr>m_input := rest\<rparr>)"
proof -
  have a: "advance p = Some (Inr (p\<lparr>m_input := rest, m_token := CHR ''\<newline>''\<rparr>))"
    using assms(1,3,4,5) by (rule advance_comment)
  have "skipWhitespace p = skipWhitespace (p\<lparr>m_input := rest, m_token := CHR ''\<newline>''\<rparr>)"
    using assms(2) a by (subst skipWhitespace.simps) simp
  also have "\<dots> = Option.bind (advance (p\<lparr>m_input := rest, m_token := CHR ''\<newline>''\<rparr>))
        (\<lambda>r. case r of Inl e \<Rightarrow> Some (Inl e) | Inr p1 \<Rightarrow> skipWhitespace p1)"
    by (subst skipWhitespace.simps) (simp add: isWhiteSpace_def)
  also have "advance (p\<lparr>m_input := rest, m_token := CHR ''\<newline>''\<rparr>) = advance (p\<lparr>m_input := rest\<rparr>)"
    using advance_token [where p = "p\<lparr>m_input := rest\<rparr>" and c = "CHR ''\<newline>''"] by simp
  also have "Option.bind (advance (p\<lparr>m_input := rest\<rparr>))
        (\<lambda>r. case r of Inl e \<Rightarrow> Some (Inl e) | Inr p1 \<Rightarrow> skipWhitespace p1) = skipWhitespace (p\<lparr>m_input := rest\<rparr>)"
    using assms(2) by (subst (2) skipWhitespace.simps) simp
  finally show ?thesis .
qed

lemma parseExpression_comment:
  assumes "m_good p" and "isWhiteSpace (m_token p)"
    and "m_input p = CHR '';'' # comment @ CHR ''\<newline>'' # rest"
    and "CHR ''\<newline>'' \<notin> set comment" and "CHR 0x00 \<notin> set comment"
  shows "parseExpression p = parseExpression (p\<lparr>m_input := rest\<rparr>)"
proof -
  have "parseExpressionRec None p = parseExpressionRec None (p\<lparr>m_input := rest\<rparr>)"
    by (subst parseExpressionRec.simps, subst (2) parseExpressionRec.simps)
       (simp add: skipWhitespace_comment [OF assms])
  then show ?thesis by (simp add: parseExpression_def)
qed

text \<open>
  Claim C9, as amended.  Parsing \<open>(a (b c) d)\<close> returns the list node of atom \<open>a\<close>, the
  list of the atoms \<open>b\<close> and \<open>c\<close>, and atom \<open>d\<close>, and rendering that node gives back
  \<open>(a (b c) d)\<close>; parsing \<open>|foo bar|\<close> returns the single atom \<open>foo bar\<close>; both
  whether the reader starts on the first character or in the state after a list.  When
  the reader advances onto a \<open>;\<close> it consumes the comment through the end of its line and
  stands on the newline, so that parsing resumes with the text after that line: a reader
  on whitespace before a comment line parses what it would parse with that line removed.
  With the atom ended by a newline, the expression read from \<open>; comment\<close>, newline, \<open>rest\<close>,
  newline after a list, or after a blank at the start of the input, is the atom \<open>rest\<close>,
  and a comment inside a list is skipped in the same way.
\<close>

theorem C9_sexpr_parser:
  "parseExpression (SMTLib2Parser_on ''(a (b c) d)'') =
     Some (Inr (Subexpressions [Atom ''a'', Subexpressions [Atom ''b'', Atom ''c''], Atom ''d''],
                SMTLib2Parser_after_list [])) \<and>
   parseExpression (SMTLib2Parser_after_list ''(a (b c) d)'') =
     Some (Inr (Subexpressions [Atom ''a'', Subexpressions [Atom ''b'', Atom ''c''], Atom ''d''],
                SMTLib2Parser_after_list [])) \<and>
   toString (Subexpressions [Atom ''a'', Subexpressions [Atom ''b'', Atom ''c''], Atom ''d'']) = ''(a (b c) d)'' \<and>
   parseExpression (SMTLib2Parser_on ''|foo bar|'') =
     Some (Inr (Atom ''foo bar'', \<lparr>m_input = [], m_good = False, m_token = CHR 0xFF\<rparr>)) \<and>
   parseExpression (SMTLib2Parser_after_list ''|foo bar|'') =
     Some (Inr (Atom ''foo bar'', \<lparr>m_input = [], m_good = False, m_token = CHR 0xFF\<rparr>)) \<and>
   (\<forall>(p :: SMTLib2Parser) comment rest.
      m_good p \<and> m_input p = CHR '';'' # comment @ CHR ''\<newline>'' # rest \<and>
      CHR ''\<newline>'' \<notin> set comment \<and> CHR 0x00 \<notin> set comment \<longrightarrow>
      advance p = Some (Inr (p\<lparr>m_input := rest, m_token := CHR ''\<newline>''\<rparr>))) \<and>
   parseExpression (SMTLib2Parser_after_list ''; comment\<newline>rest\<newline>'') =
     Some (Inr (Atom ''rest'', \<lparr>m_input = [], m_good = True, m_token = CHR ''\<newline>''\<rparr>)) \<and>
   parseExpression (SMTLib2Parser_on ''(a ; comment\<newline> b)'') =
     Some (Inr (Subexpressions [Atom ''a'', Atom ''b''], SMTLib2Parser_after_list [])) \<and>
   (\<forall>(p :: SMTLib2Parser) comment rest.
      m_good p \<and> isWhiteSpace (m_token p) \<and>
      m_input p = CHR '';'' # comment @ CHR ''\<newline>'' # rest \<and>
      CHR ''\<newline>'' \<notin> set comment \<and> CHR 0x00 \<notin> set comment \<longrightarrow>
      parseExpression p = parseExpression (p\<lparr>m_input := rest\<rparr>)) \<and>
   parseExpression (SMTLib2Parser_on '' ; comment\<newline>rest\<newline>'') =
     Some (Inr (Atom ''rest'', \<lparr>m_input = [], m_good = True, m_token = CHR ''\<newline>''\<rparr>))"
proof (intro conjI allI impI)
  show "parseExpression (SMTLib2Parser_on ''(a (b c) d)'') =
     Some (Inr (Subexpressions [Atom ''a'', Subexpressions [Atom ''b'', Atom ''c''], Atom ''d''],
                SMTLib2Parser_after_list []))"
    by (simp add: parser_eval SMTLib2Parser_after_list_def)
  show "parseExpression (SMTLib2Parser_after_list ''(a (b c) d)'') =
     Some (Inr (Subexpressions [Atom ''a'', Subexpressions [Atom ''b'', Atom ''c''], Atom ''d''],
                SMTLib2Parser_after_list []))"
    by (simp add: parser_eval SMTLib2Parser_after_list_def)
  show "toString (Subexpressions [Atom ''a'', Subexpressions [Atom ''b'', Atom ''c''], Atom ''d'']) = ''(a (b c) d)''"
    by (simp add: joinHumanReadable_def)
  show "parseExpression (SMTLib2Parser_on ''|foo bar|'') =
     Some (Inr (Atom ''foo bar'', \<lparr>m_input = [], m_good = False, m_token = CHR 0xFF\<rparr>))"
    by (simp add: parser_eval)
  show "parseExpression (SMTLib2Parser_after_list ''|foo bar|'') =
     Some (Inr (Atom ''foo bar'', \<lparr>m_input = [], m_good = False, m_token = CHR 0xFF\<rparr>))"
    by (simp add: parser_eval SMTLib2Parser_after_list_def)
  show "parseExpression (SMTLib2Parser_after_list ''; comment\<newline>rest\<newline>'') =
     Some (Inr (Atom ''rest'', \<lparr>m_input = [], m_good = True, m_token = CHR ''\<newline>''\<rparr>))"
    by (simp add: parser_eval SMTLib2Parser_after_list_def)
  show "parseExpression (SMTLib2Parser_on ''(a ; comment\<newline> b)'') =
     Some (Inr (Subexpressions [Atom ''a'', Atom ''b''], SMTLib2Parser_after_list []))"
    by (simp add: parser_eval SMTLib2Parser_after_list_def)
  show "parseExpression (SMTLib2Parser_on '' ; comment\<newline>rest\<newline>'') =
     Some (Inr (Atom ''rest'', \<lparr>m_input = [], m_good = True, m_token = CHR ''\<newline>''\<rparr>))"
    by (simp add: parser_eval)
next
  fix p :: SMTLib2Parser and comment rest
  assume "m_good p \<and> m_input p = CHR '';'' # comment @ CHR ''\<newline>'' # rest \<and>
      CHR ''\<newline>'' \<notin> set comment \<and> CHR 0x00 \<notin> set comment"
  then show "advance p = Some (Inr (p\<lparr>m_input := rest, m_token := CHR ''\<newline>''\<rparr>))"
    using advance_comment by blast
next
  fix p :: SMTLib2Parser and comment rest
  assume "m_good p \<and> isWhiteSpace (m_token p) \<and>
      m_input p = CHR '';'' # comment @ CHR ''\<newline>'' # rest \<and>
      CHR ''\<newline>'' \<notin> set comment \<and> CHR 0x00 \<notin> set comment"
  then show "parseExpression p = parseExpression (p\<lparr>m_input := rest\<rparr>)"
    using parseExpression_comment by blast
qed

theorem C9_sexpr_parser_witness:
  "m_good (SMTLib2Parser_after_list ''; comment\<newline>rest\<newline>'') \<and>
   isWhiteSpace (m_token (SMTLib2Parser_after_list ''; comment\<newline>rest\<newline>'')) \<and>
   m_input (SMTLib2Parser_after_list ''; comment\<newline>rest\<newline>'') = CHR '';'' # '' comment'' @ CHR ''\<newline>'' # ''rest\<newline>'' \<and>
   CHR ''\<newline>'' \<notin> set '' comment'' \<and> CHR 0x00 \<notin> set '' comment'' \<and>
   advance (SMTLib2Parser_after_list ''; comment\<newline>rest\<newline>'') =
     Some (Inr \<lparr>m_input = ''rest\<newline>'', m_good = True, m_token = CHR ''\<newline>''\<rparr>) \<and>
   parseExpression (SMTLib2Parser_after_list ''; comment\<newline>rest\<newline>'') =
     parseExpression (SMTLib2Parser_after_list ''rest\<newline>'')"
proof -
  note c = C9_sexpr_parser [THEN conjunct2, THEN conjunct2, THEN conjunct2, THEN conjunct2, THEN conjunct2,
      THEN conjunct1, rule_format,
      of "SMTLib2Parser_after_list ''; comment\<newline>rest\<newline>''" "'' comment''" "''rest\<newline>''"]
  note d = C9_sexpr_parser [THEN conjunct2, THEN conjunct2, THEN conjunct2, THEN conjunct2, THEN conjunct2,
      THEN conjunct2, THEN conjunct2, THEN conjunct2, THEN conjunct1, rule_format,
      of "SMTLib2Parser_after_list ''; comment\<newline>rest\<newline>''" "'' comment''" "''rest\<newline>''"]
  show ?thesis using c d by (simp add: SMTLib2Parser_after_list_def isWhiteSpace_def)
qed

text \<open>
  Claim C9 as stated fails at the input \<open>; comment\<close>, newline, \<open>rest\<close>: a reader that
  starts on it reads the \<open>;\<close> as an atom, and after a list, where the comment is skipped,
  the atom \<open>rest\<close> runs into the end of the input and the parse raises
  \<open>ParsingException\<close>.
\<close>

theorem C9_comment_line_counterexample:
  "parseExpression (SMTLib2Parser_on ''; comment\<newline>rest'') =
     Some (Inr (Atom '';'', \<lparr>m_input = ''comment\<newline>rest'', m_good = True, m_token = CHR '' ''\<rparr>)) \<and>
   parseExpression (SMTLib2Parser_after_list ''; comment\<newline>rest'') = Some (Inl ParsingException)"
  by (simp add: parser_eval SMTLib2Parser_after_list_def)

end
